theory Spec2Isabelle
  imports Main "HOL-Library.Word" "HOL-Library.Sublist"
begin

section \<open>Data model\<close>

text \<open>
  The chat server of \<^verbatim>\<open>hub.go\<close>. The repository holds two versions of the file; the
  one modelled here is the later one, with envelopes, typing status and the replay of the
  history. One \<^verbatim>\<open>Hub\<close> goroutine owns the registry \<^verbatim>\<open>clients\<close> and the room index
  \<^verbatim>\<open>rooms\<close>; every connection is a \<^verbatim>\<open>Client\<close> with a buffered channel \<^verbatim>\<open>send\<close> of
  capacity 256. A \<^verbatim>\<open>[]byte\<close> is a \<open>string\<close> (a list of bytes), an \<^verbatim>\<open>int64\<close> a 64-bit
  word read with \<open>sint\<close>.
\<close>

type_synonym bytes = string

record Envelope =
  Type :: string
  Room :: string
  Payload :: bytes

record Message =
  Username :: string
  Text :: string
  Timestamp :: "64 word"

record TypingStatus =
  User :: string
  Status :: bool

definition zero_Envelope :: Envelope where
  "zero_Envelope = \<lparr>Type = [], Room = [], Payload = []\<rparr>"

definition zero_Message :: Message where
  "zero_Message = \<lparr>Username = [], Text = [], Timestamp = 0\<rparr>"

definition zero_TypingStatus :: TypingStatus where
  "zero_TypingStatus = \<lparr>User = [], Status = False\<rparr>"

text \<open>
  \<^verbatim>\<open>encoding/json\<close> is a library outside the repository, so it is a parameter of every
  function that calls it. \<open>unmarshal_X J b\<close> is what \<^verbatim>\<open>json.Unmarshal(b, &x)\<close>
  does to a variable \<open>x\<close> that holds the zero value (every call site declares the
  variable just before): the value left in \<open>x\<close>, and whether \<^verbatim>\<open>err == nil\<close>. A failed
  call may leave fields filled in (a type mismatch in one field does not undo the others).
  \<open>marshal_chat J t r m\<close> and \<open>marshal_typing J t r s\<close> are \<^verbatim>\<open>json.Marshal\<close> of the
  anonymous structs \<^verbatim>\<open>{Type, Room, Payload}\<close> the code builds, with the same flag.
\<close>

record json =
  unmarshal_Envelope :: "bytes \<Rightarrow> Envelope \<times> bool"
  unmarshal_Message :: "bytes \<Rightarrow> Message \<times> bool"
  unmarshal_TypingStatus :: "bytes \<Rightarrow> TypingStatus \<times> bool"
  marshal_chat :: "string \<Rightarrow> string \<Rightarrow> Message \<Rightarrow> bytes \<times> bool"
  marshal_typing :: "string \<Rightarrow> string \<Rightarrow> TypingStatus \<Rightarrow> bytes \<times> bool"

text \<open>
  The \<^verbatim>\<open>Repository\<close> interface. An error is its text; \<open>None\<close> is \<^verbatim>\<open>nil\<close>.
\<close>

record Repository =
  SaveMessage :: "Message \<Rightarrow> string option"
  GetLastMessages :: "string \<Rightarrow> int \<Rightarrow> Message list \<times> string option"

subsection \<open>Channels\<close>

text \<open>
  A buffered channel of byte slices: the queued elements, oldest first, and whether it has
  been closed. \<^verbatim>\<open>make(chan []byte, 256)\<close> gives \<open>make_chan\<close> with capacity \<open>send_cap\<close>.
\<close>

record chan =
  buf :: "bytes list"
  closed :: bool

definition send_cap :: nat where
  "send_cap = 256"

definition make_chan :: chan where
  "make_chan = \<lparr>buf = [], closed = False\<rparr>"

datatype send_result = Sent chan | Full | SendOnClosed

text \<open>
  \<^verbatim>\<open>select { case ch <- m: ... default: ... }\<close>: a send on a closed channel panics, a
  send with room in the buffer succeeds, otherwise the default branch runs.
\<close>

definition try_send :: "chan \<Rightarrow> bytes \<Rightarrow> send_result" where
  "try_send ch m =
     (if closed ch then SendOnClosed
      else if length (buf ch) < send_cap then Sent (ch\<lparr>buf := buf ch @ [m]\<rparr>)
      else Full)"

text \<open>\<^verbatim>\<open>close(ch)\<close>: closing a closed channel panics (\<open>None\<close>).\<close>

definition close_chan :: "chan \<Rightarrow> chan option" where
  "close_chan ch = (if closed ch then None else Some (ch\<lparr>closed := True\<rparr>))"

subsection \<open>Clients, the Hub and the state of the program\<close>

text \<open>
  A \<^verbatim>\<open>*Client\<close> is an address; the heap holds the struct behind it. The fields
  \<^verbatim>\<open>conn\<close> (the transport) and \<^verbatim>\<open>hub\<close> (there is one Hub) are left out.
\<close>

type_synonym cref = nat

record Client =
  send :: chan
  room :: string
  username :: string

text \<open>
  The maps \<^verbatim>\<open>map[*Client]bool\<close> and \<^verbatim>\<open>map[string]map[*Client]bool\<close>. The three
  channels of the Hub are unbuffered (\<^verbatim>\<open>make(chan ...)\<close> without a capacity): what is
  sent on them is an \<open>event\<close> that \<^verbatim>\<open>Run\<close> receives.
\<close>

record Hub =
  clients :: "cref \<rightharpoonup> bool"
  rooms :: "string \<rightharpoonup> (cref \<rightharpoonup> bool)"
  db :: Repository

text \<open>
  The state of the program: the Hub, the heap of clients, the messages handed to
  \<^verbatim>\<open>SaveMessage\<close> and the lines that \<^verbatim>\<open>Run\<close>, \<^verbatim>\<open>serveWs\<close> and the pumps write to
  the log (each line by its fixed text, without the error value; what a repository logs of
  its own is not recorded), both in order, and for every client the frames written to its
  transport and whether its \<^verbatim>\<open>writePump\<close> has returned.
\<close>

datatype frame = TextMessage bytes | CloseMessage

record world =
  hub :: Hub
  heap :: "cref \<Rightarrow> Client"
  saved :: "Message list"
  logged :: "string list"
  written :: "cref \<Rightarrow> frame list"
  writer_exited :: "cref \<Rightarrow> bool"

datatype event = Register cref | Unregister cref | Broadcast bytes

text \<open>
  What becomes of the goroutine that runs \<^verbatim>\<open>Hub.Run\<close> after an event: it is back at
  its \<^verbatim>\<open>select\<close> (\<open>Done\<close>), it is blocked for ever in \<^verbatim>\<open>h.unregister <- client\<close>
  (\<open>Blocked\<close>, with the state it is stuck in and the client it tries to send), or it has
  panicked.
\<close>

datatype outcome = Done world | Blocked world cref | Panic string

text \<open>The state the Hub is left in, when it has not panicked.\<close>

fun state_of :: "outcome \<Rightarrow> world option" where
  "state_of (Done w) = Some w"
| "state_of (Blocked w c) = Some w"
| "state_of (Panic s) = None"

definition NewHub :: "Repository \<Rightarrow> Hub" where
  "NewHub d = \<lparr>clients = Map.empty, rooms = Map.empty, db = d\<rparr>"

section \<open>Hub.Run\<close>

text \<open>\<^verbatim>\<open>case client := <-h.register\<close>\<close>

definition Run_register :: "cref \<Rightarrow> world \<Rightarrow> world" where
  "Run_register client w =
     (let h = hub w;
          r = room (heap w client);
          h1 = h\<lparr>clients := (clients h)(client \<mapsto> True)\<rparr>;
          h2 = (if rooms h1 r = None then h1\<lparr>rooms := (rooms h1)(r \<mapsto> Map.empty)\<rparr> else h1);
          h3 = (case rooms h2 r of
                  None \<Rightarrow> h2
                | Some m \<Rightarrow> h2\<lparr>rooms := (rooms h2)(r \<mapsto> m(client \<mapsto> True))\<rparr>)
      in w\<lparr>hub := h3\<rparr>)"

text \<open>
  \<^verbatim>\<open>case client := <-h.unregister\<close>: the client leaves \<^verbatim>\<open>h.clients\<close> and its channel
  is closed. Nothing is deleted from \<^verbatim>\<open>h.rooms\<close>.
\<close>

definition Run_unregister :: "cref \<Rightarrow> world \<Rightarrow> outcome" where
  "Run_unregister client w =
     (if clients (hub w) client \<noteq> None then
        (case close_chan (send (heap w client)) of
           None \<Rightarrow> Panic ''close of closed channel''
         | Some ch \<Rightarrow>
             Done (w\<lparr>hub := (hub w)\<lparr>clients := (clients (hub w))(client := None)\<rparr>,
                     heap := (heap w)(client := (heap w client)\<lparr>send := ch\<rparr>)\<rparr>))
      else Done w)"

text \<open>
  The loop \<^verbatim>\<open>for client := range h.rooms[env.Room]\<close>, over the keys in the order the
  runtime yields them. A client that is no longer in \<^verbatim>\<open>h.clients\<close> is skipped. When a
  queue is full the Hub sends the client on \<^verbatim>\<open>h.unregister\<close>; that channel is
  unbuffered and its only receiver is this goroutine, so the send never completes.
\<close>

fun fanout :: "bytes \<Rightarrow> cref list \<Rightarrow> world \<Rightarrow> outcome" where
  "fanout message [] w = Done w"
| "fanout message (client # rest) w =
     (if clients (hub w) client = None then fanout message rest w
      else (case try_send (send (heap w client)) message of
              Sent ch \<Rightarrow>
                fanout message rest (w\<lparr>heap := (heap w)(client := (heap w client)\<lparr>send := ch\<rparr>)\<rparr>)
            | Full \<Rightarrow> Blocked w client
            | SendOnClosed \<Rightarrow> Panic ''send on closed channel''))"

text \<open>The part of the broadcast case that talks to the repository.\<close>

definition persist :: "json \<Rightarrow> Envelope \<Rightarrow> world \<Rightarrow> world" where
  "persist J env w =
     (if Type env = ''chat_message'' then
        (case unmarshal_Message J (Payload env) of
           (msg, True) \<Rightarrow>
             (let w1 = w\<lparr>saved := saved w @ [msg]\<rparr>
              in case SaveMessage (db (hub w)) msg of
                   None \<Rightarrow> w1
                 | Some e \<Rightarrow> w1\<lparr>logged := logged w1 @ [''SaveMessage error:'']\<rparr>)
         | (msg, False) \<Rightarrow> w)
      else w)"

text \<open>
  The keys of \<^verbatim>\<open>h.rooms[r]\<close> (of the nil map when the room is unknown), and the orders in
  which \<^verbatim>\<open>range\<close> may yield them: every key once, in any order.
\<close>

definition room_keys :: "world \<Rightarrow> string \<Rightarrow> cref set" where
  "room_keys w r = (case rooms (hub w) r of None \<Rightarrow> {} | Some m \<Rightarrow> dom m)"

definition range_order :: "world \<Rightarrow> string \<Rightarrow> cref list \<Rightarrow> bool" where
  "range_order w r order \<longleftrightarrow> distinct order \<and> set order = room_keys w r"

text \<open>
  \<^verbatim>\<open>case message := <-h.broadcast\<close>; \<open>order\<close> is the order in which \<^verbatim>\<open>range\<close> yields
  the keys of the room's map.
\<close>

definition Run_broadcast :: "json \<Rightarrow> bytes \<Rightarrow> cref list \<Rightarrow> world \<Rightarrow> outcome" where
  "Run_broadcast J message order w =
     (case unmarshal_Envelope J message of
        (env, False) \<Rightarrow> Done (w\<lparr>logged := logged w @ [''unmarshal envelope error:'']\<rparr>)
      | (env, True) \<Rightarrow> fanout message order (persist J env w))"

text \<open>One turn of the loop of \<^verbatim>\<open>Run\<close>.\<close>

fun Run_event :: "json \<Rightarrow> event \<Rightarrow> cref list \<Rightarrow> world \<Rightarrow> outcome" where
  "Run_event J (Register client) order w = Done (Run_register client w)"
| "Run_event J (Unregister client) order w = Run_unregister client w"
| "Run_event J (Broadcast message) order w = Run_broadcast J message order w"

text \<open>
  \<^verbatim>\<open>Run\<close> on the events in the order it receives them, each with the iteration order of
  its \<^verbatim>\<open>range\<close> loop. Once blocked or panicked it handles no further event.
\<close>

fun Run :: "json \<Rightarrow> (event \<times> cref list) list \<Rightarrow> world \<Rightarrow> outcome" where
  "Run J [] w = Done w"
| "Run J ((ev, order) # evs) w =
     (case Run_event J ev order w of
        Done w' \<Rightarrow> Run J evs w'
      | Blocked w' c \<Rightarrow> Blocked w' c
      | Panic s \<Rightarrow> Panic s)"

subsection \<open>The loop in the older version\<close>

text \<open>
  In the older \<^verbatim>\<open>hub.go\<close> the register and unregister cases of \<^verbatim>\<open>Run\<close> are the same,
  and the loop of the broadcast case has no check of \<^verbatim>\<open>h.clients\<close>; when a queue is
  full it closes the channel and deletes the client from \<^verbatim>\<open>h.clients\<close> on the spot.
\<close>

fun fanout_hub_go :: "bytes \<Rightarrow> cref list \<Rightarrow> world \<Rightarrow> outcome" where
  "fanout_hub_go message [] w = Done w"
| "fanout_hub_go message (client # rest) w =
     (case try_send (send (heap w client)) message of
        Sent ch \<Rightarrow>
          fanout_hub_go message rest (w\<lparr>heap := (heap w)(client := (heap w client)\<lparr>send := ch\<rparr>)\<rparr>)
      | Full \<Rightarrow>
          (case close_chan (send (heap w client)) of
             None \<Rightarrow> Panic ''close of closed channel''
           | Some ch \<Rightarrow>
               fanout_hub_go message rest
                 (w\<lparr>heap := (heap w)(client := (heap w client)\<lparr>send := ch\<rparr>),
                    hub := (hub w)\<lparr>clients := (clients (hub w))(client := None)\<rparr>\<rparr>))
      | SendOnClosed \<Rightarrow> Panic ''send on closed channel'')"

section \<open>Client.writePump\<close>

text \<open>
  \<^verbatim>\<open>message, ok := <-c.send\<close>: the oldest queued element; on an empty channel the
  closed signal when the channel is closed, and otherwise the receive blocks (\<open>None\<close>).
\<close>

datatype recv_result = Received bytes chan | ClosedSignal

definition recv :: "chan \<Rightarrow> recv_result option" where
  "recv ch =
     (case buf ch of
        m # rest \<Rightarrow> Some (Received m (ch\<lparr>buf := rest\<rparr>))
      | [] \<Rightarrow> if closed ch then Some ClosedSignal else None)"

text \<open>
  One turn of the loop of \<^verbatim>\<open>writePump\<close> of client \<open>c\<close>; \<open>write_ok\<close> is whether
  \<^verbatim>\<open>c.conn.WriteMessage\<close> succeeds. \<open>written w c\<close> are the frames written to the
  transport so far, \<open>writer_exited w c\<close> whether the pump has returned. A pump that has
  returned, or that waits on an empty open channel, does nothing.
\<close>

definition writePump_step :: "cref \<Rightarrow> bool \<Rightarrow> world \<Rightarrow> world" where
  "writePump_step c write_ok w =
     (if writer_exited w c then w
      else (case recv (send (heap w c)) of
              None \<Rightarrow> w
            | Some ClosedSignal \<Rightarrow>
                w\<lparr>written := (written w)(c := written w c @ [CloseMessage]),
                  writer_exited := (writer_exited w)(c := True)\<rparr>
            | Some (Received message ch) \<Rightarrow>
                (let w1 = w\<lparr>heap := (heap w)(c := (heap w c)\<lparr>send := ch\<rparr>)\<rparr>
                 in if write_ok
                    then w1\<lparr>written := (written w1)(c := written w1 c @ [TextMessage message])\<rparr>
                    else w1\<lparr>logged := logged w1 @ [''WriteMessage error: ''],
                            writer_exited := (writer_exited w1)(c := True)\<rparr>)))"

section \<open>serveWs\<close>

text \<open>
  What becomes of a call of \<^verbatim>\<open>serveWs\<close>: the request is refused with status 400, the
  upgrade fails, the handler blocks for ever in \<^verbatim>\<open>client.send <- jsonMsg\<close> (the queue
  is full and \<^verbatim>\<open>writePump\<close> has not been started), or it reaches
  \<^verbatim>\<open>client.hub.register <- client\<close> in the state given.
\<close>

datatype serve_outcome = BadRequest | UpgradeFailed world | ReplayBlocked world | Joined world

fun serve_world :: "serve_outcome \<Rightarrow> world option" where
  "serve_world BadRequest = None"
| "serve_world (UpgradeFailed w) = Some w"
| "serve_world (ReplayBlocked w) = Some w"
| "serve_world (Joined w) = Some w"

definition enqueue :: "cref \<Rightarrow> bytes \<Rightarrow> world \<Rightarrow> world" where
  "enqueue c m w =
     w\<lparr>heap := (heap w)(c := (heap w c)\<lparr>send := (send (heap w c))\<lparr>buf := buf (send (heap w c)) @ [m]\<rparr>\<rparr>)\<rparr>"

text \<open>The loop \<^verbatim>\<open>for _, msg := range lastMessages\<close> of \<^verbatim>\<open>serveWs\<close>.\<close>

fun replay :: "json \<Rightarrow> cref \<Rightarrow> Message list \<Rightarrow> world \<Rightarrow> serve_outcome" where
  "replay J c [] w = Joined w"
| "replay J c (msg # rest) w =
     (case marshal_chat J ''chat_message'' (room (heap w c)) msg of
        (jsonMsg, False) \<Rightarrow>
          replay J c rest (w\<lparr>logged := logged w @ [''LastMessage Marshal error:'']\<rparr>)
      | (jsonMsg, True) \<Rightarrow>
          (if length (buf (send (heap w c))) < send_cap
           then replay J c rest (enqueue c jsonMsg w)
           else ReplayBlocked w))"

text \<open>
  \<open>rm\<close> and \<open>uname\<close> are the query parameters, \<open>upgrade_ok\<close> whether
  \<^verbatim>\<open>upgrader.Upgrade\<close> succeeds, \<open>c\<close> the address of the new \<^verbatim>\<open>Client\<close>, whose
  transport has nothing written to it yet.
\<close>

definition serveWs :: "json \<Rightarrow> string \<Rightarrow> string \<Rightarrow> bool \<Rightarrow> cref \<Rightarrow> world \<Rightarrow> serve_outcome" where
  "serveWs J rm uname upgrade_ok c w =
     (if rm = [] \<or> uname = [] then BadRequest
      else if \<not> upgrade_ok then UpgradeFailed (w\<lparr>logged := logged w @ [''upgrade error'']\<rparr>)
      else
        (let w1 = w\<lparr>heap := (heap w)(c := \<lparr>send = make_chan, room = rm, username = uname\<rparr>),
                     written := (written w)(c := []),
                     writer_exited := (writer_exited w)(c := False)\<rparr>
         in case GetLastMessages (db (hub w1)) (room (heap w1 c)) 10 of
              (lastMessages, Some e) \<Rightarrow> Joined (w1\<lparr>logged := logged w1 @ [''GetLastMessages error:'']\<rparr>)
            | (lastMessages, None) \<Rightarrow> replay J c lastMessages w1))"

section \<open>Client.readPump\<close>

text \<open>
  What \<^verbatim>\<open>c.conn.ReadMessage\<close> returns: a frame (with the reading of the server clock
  while the frame is handled) or an error. What the pump does: log lines, sends to the Hub,
  and closing the transport.
\<close>

datatype reading = Frame bytes "64 word" | ReadError

datatype effect = Log string | ToHub event | ConnClose

text \<open>The body of the loop after a successful read.\<close>

definition on_frame :: "json \<Rightarrow> 64 word \<Rightarrow> bytes \<Rightarrow> effect list" where
  "on_frame J now message =
     (case unmarshal_Envelope J message of (wrap, ok) \<Rightarrow>
        (if ok then [] else [Log ''unmarshal wrap error:'']) @
        (if Type wrap = ''chat_message'' then
           (case unmarshal_Message J (Payload wrap) of (msg, ok1) \<Rightarrow>
              (if ok1 then [] else [Log ''Unmarshal chat message error:'']) @
              [ToHub (Broadcast (fst (marshal_chat J (Type wrap) (Room wrap)
                                        (msg\<lparr>Timestamp := now\<rparr>))))])
         else if Type wrap = ''typing_status'' then
           (case unmarshal_TypingStatus J (Payload wrap) of (ts, ok2) \<Rightarrow>
              (if ok2 then [] else [Log ''typing status unmarshal error:'']) @
              [ToHub (Broadcast (fst (marshal_typing J (Type wrap) (Room wrap) ts)))])
         else []))"

text \<open>
  \<^verbatim>\<open>readPump\<close> of client \<open>c\<close> on what its reads return. A read error ends the pump:
  the deferred function sends the client on \<^verbatim>\<open>hub.unregister\<close> and closes the
  transport. With no further input the pump waits in \<^verbatim>\<open>ReadMessage\<close>. The effects are
  in the order the pump performs them; a send to the Hub completes when the Hub receives
  it, so behind a Hub that is blocked the pump gets no further than its next send.
\<close>

fun readPump :: "json \<Rightarrow> cref \<Rightarrow> reading list \<Rightarrow> effect list" where
  "readPump J c [] = []"
| "readPump J c (ReadError # rest) = [ToHub (Unregister c), ConnClose]"
| "readPump J c (Frame message now # rest) = on_frame J now message @ readPump J c rest"

text \<open>The events a pump sends to the Hub, in order.\<close>

fun to_hub :: "effect list \<Rightarrow> event list" where
  "to_hub [] = []"
| "to_hub (ToHub ev # es) = ev # to_hub es"
| "to_hub (Log l # es) = to_hub es"
| "to_hub (ConnClose # es) = to_hub es"

section \<open>The program as a whole\<close>

text \<open>
  The goroutines interleave: the Hub handles an event, or the \<^verbatim>\<open>writePump\<close> of a client
  takes a turn.
\<close>

datatype action = HubEvent event "cref list" | WritePump cref bool

fun step :: "json \<Rightarrow> action \<Rightarrow> world \<Rightarrow> outcome" where
  "step J (HubEvent ev order) w = Run_event J ev order w"
| "step J (WritePump c write_ok) w = Done (writePump_step c write_ok w)"

fun steps :: "json \<Rightarrow> action list \<Rightarrow> world \<Rightarrow> outcome" where
  "steps J [] w = Done w"
| "steps J (a # as) w =
     (case step J a w of
        Done w' \<Rightarrow> steps J as w'
      | Blocked w' c \<Rightarrow> Blocked w' c
      | Panic s \<Rightarrow> Panic s)"

section \<open>MockDB and sample data\<close>

text \<open>
  \<^verbatim>\<open>MockDB\<close>; \<open>t1\<close> and \<open>t2\<close> are the two readings of the clock in
  \<^verbatim>\<open>GetLastMessages\<close>. Its two methods also print a line each, which is left out.
\<close>

definition MockDB :: "64 word \<Rightarrow> 64 word \<Rightarrow> Repository" where
  "MockDB t1 t2 =
     \<lparr>SaveMessage = (\<lambda>msg. None),
      GetLastMessages = (\<lambda>rm count.
        ([\<lparr>Username = ''Alice'', Text = ''Hello!'', Timestamp = t1 - 10\<rparr>,
          \<lparr>Username = ''Bob'', Text = ''Hi Alice!'', Timestamp = t2 - 5\<rparr>], None))\<rparr>"

text \<open>
  The state in which \<^verbatim>\<open>main\<close> starts the Hub: \<^verbatim>\<open>NewHub(db)\<close>, no client allocated
  (every address holds the zero \<^verbatim>\<open>Client\<close> with a fresh channel), nothing saved,
  logged or written.
\<close>

definition init_world :: "Repository \<Rightarrow> world" where
  "init_world d =
     \<lparr>hub = NewHub d,
      heap = (\<lambda>c. \<lparr>send = make_chan, room = [], username = []\<rparr>),
      saved = [], logged = [],
      written = (\<lambda>c. []), writer_exited = (\<lambda>c. False)\<rparr>"

text \<open>
  A stand-in for \<^verbatim>\<open>encoding/json\<close> on which the examples are evaluated.
  \<open>sample_marshal_chat\<close> writes the envelope as \<^verbatim>\<open>json.Marshal\<close> does for strings that
  need no escaping, the timestamp in decimal. The unmarshal functions are tables of the
  byte strings the examples use, each with the result \<^verbatim>\<open>json.Unmarshal\<close> gives for it;
  on any other input they report an error and leave the zero value. The frames of the
  examples: \<open>frame_hi\<close> is a chat message with the timestamp 0 and \<open>hi_stamped\<close> what the
  server makes of it at time 1700000000; the payload of \<open>frame_str\<close> is a JSON string,
  which does not decode into a \<^verbatim>\<open>Message\<close>, and \<open>zero_stamped\<close> is the envelope of the
  zero message stamped at that time; \<open>frame_ping\<close> has a type tag the server does not
  know.
\<close>

fun decimal :: "nat \<Rightarrow> string" where
  "decimal n =
     (if n < 10 then [''0123456789'' ! n]
      else decimal (n div 10) @ [''0123456789'' ! (n mod 10)])"

declare decimal.simps [simp del]

definition show_int64 :: "64 word \<Rightarrow> string" where
  "show_int64 x =
     (if sint x < 0 then CHR ''-'' # decimal (nat (- sint x)) else decimal (nat (sint x)))"

definition show_bool :: "bool \<Rightarrow> string" where
  "show_bool b = (if b then ''true'' else ''false'')"

definition sample_marshal_chat :: "string \<Rightarrow> string \<Rightarrow> Message \<Rightarrow> bytes \<times> bool" where
  \<open>sample_marshal_chat t r m =
     (''{"type":"'' @ t @ ''","room":"'' @ r @ ''","payload":{"username":"'' @ Username m @
      ''","text":"'' @ Text m @ ''","timestamp":'' @ show_int64 (Timestamp m) @ ''}}'', True)\<close>

definition sample_marshal_typing :: "string \<Rightarrow> string \<Rightarrow> TypingStatus \<Rightarrow> bytes \<times> bool" where
  \<open>sample_marshal_typing t r s =
     (''{"type":"'' @ t @ ''","room":"'' @ r @ ''","payload":{"user":"'' @ User s @
      ''","status":'' @ show_bool (Status s) @ ''}}'', True)\<close>

definition frame_hi :: bytes where
  \<open>frame_hi =
     ''{"type":"chat_message","room":"lobby","payload":{"username":"alice","text":"hi","timestamp":0}}''\<close>

definition hi_stamped :: bytes where
  \<open>hi_stamped =
     ''{"type":"chat_message","room":"lobby","payload":{"username":"alice","text":"hi","timestamp":1700000000}}''\<close>

definition frame_str :: bytes where
  \<open>frame_str = ''{"type":"chat_message","room":"lobby","payload":"hello"}''\<close>

definition zero_stamped :: bytes where
  \<open>zero_stamped =
     ''{"type":"chat_message","room":"lobby","payload":{"username":"","text":"","timestamp":1700000000}}''\<close>

definition frame_ping :: bytes where
  \<open>frame_ping = ''{"type":"ping","room":"lobby","payload":{}}''\<close>

definition sample_envelopes :: "(bytes \<times> Envelope) list" where
  \<open>sample_envelopes =
     [(frame_hi,
       \<lparr>Type = ''chat_message'', Room = ''lobby'',
        Payload = ''{"username":"alice","text":"hi","timestamp":0}''\<rparr>),
      (hi_stamped,
       \<lparr>Type = ''chat_message'', Room = ''lobby'',
        Payload = ''{"username":"alice","text":"hi","timestamp":1700000000}''\<rparr>),
      (frame_str,
       \<lparr>Type = ''chat_message'', Room = ''lobby'', Payload = ''"hello"''\<rparr>),
      (zero_stamped,
       \<lparr>Type = ''chat_message'', Room = ''lobby'',
        Payload = ''{"username":"","text":"","timestamp":1700000000}''\<rparr>),
      (frame_ping,
       \<lparr>Type = ''ping'', Room = ''lobby'', Payload = ''{}''\<rparr>)]\<close>

definition sample_messages :: "(bytes \<times> Message) list" where
  \<open>sample_messages =
     [(''{"username":"alice","text":"hi","timestamp":0}'',
       \<lparr>Username = ''alice'', Text = ''hi'', Timestamp = 0\<rparr>),
      (''{"username":"alice","text":"hi","timestamp":1700000000}'',
       \<lparr>Username = ''alice'', Text = ''hi'', Timestamp = 1700000000\<rparr>),
      (''{"username":"","text":"","timestamp":1700000000}'',
       \<lparr>Username = [], Text = [], Timestamp = 1700000000\<rparr>),
      (''{}'', zero_Message)]\<close>

definition lookup_or :: "'a \<Rightarrow> (bytes \<times> 'a) list \<Rightarrow> bytes \<Rightarrow> 'a \<times> bool" where
  "lookup_or z table b = (case map_of table b of None \<Rightarrow> (z, False) | Some v \<Rightarrow> (v, True))"

definition json_sample :: json where
  "json_sample =
     \<lparr>unmarshal_Envelope = lookup_or zero_Envelope sample_envelopes,
      unmarshal_Message = lookup_or zero_Message sample_messages,
      unmarshal_TypingStatus = lookup_or zero_TypingStatus [],
      marshal_chat = sample_marshal_chat,
      marshal_typing = sample_marshal_typing\<rparr>"

text \<open>
  Sample data: the repository is \<^verbatim>\<open>MockDB\<close> read at time 1700000000; \<open>alice\<close>,
  \<open>bob\<close> and \<open>carol\<close> are the addresses of three clients. \<open>arrive c rm uname w\<close>
  is the state in which \<^verbatim>\<open>serveWs\<close>, called in \<open>w\<close>, sends the new client \<open>c\<close> to the
  Hub: its queue holds the two messages of the history. \<open>alice_joined\<close> is that state
  for alice, first of all clients.
\<close>

definition sample_db :: Repository where
  "sample_db = MockDB 1700000000 1700000000"

abbreviation alice :: cref where "alice \<equiv> 10"
abbreviation bob :: cref where "bob \<equiv> 20"
abbreviation carol :: cref where "carol \<equiv> 30"

definition sample_history :: "string \<Rightarrow> bytes list" where
  \<open>sample_history rm =
     [''{"type":"chat_message","room":"'' @ rm @
        ''","payload":{"username":"Alice","text":"Hello!","timestamp":1699999990}}'',
      ''{"type":"chat_message","room":"'' @ rm @
        ''","payload":{"username":"Bob","text":"Hi Alice!","timestamp":1699999995}}'']\<close>

definition new_client :: "cref \<Rightarrow> Client \<Rightarrow> world \<Rightarrow> world" where
  "new_client c cl w =
     w\<lparr>heap := (heap w)(c := cl), written := (written w)(c := []),
       writer_exited := (writer_exited w)(c := False)\<rparr>"

definition arrive :: "cref \<Rightarrow> string \<Rightarrow> string \<Rightarrow> world \<Rightarrow> world" where
  "arrive c rm uname w =
     new_client c \<lparr>send = \<lparr>buf = sample_history rm, closed = False\<rparr>, room = rm, username = uname\<rparr> w"

definition alice_joined :: world where
  "alice_joined = arrive alice ''lobby'' ''alice'' (init_world sample_db)"

text \<open>
  \<open>join c rm uname w\<close>: the client has arrived and the Hub has handled its register
  event. In \<open>three_clients\<close> alice and bob are in the lobby and carol is in another
  room.
\<close>

definition join :: "cref \<Rightarrow> string \<Rightarrow> string \<Rightarrow> world \<Rightarrow> world" where
  "join c rm uname w = Run_register c (arrive c rm uname w)"

definition three_clients :: world where
  "three_clients =
     join carol ''other'' ''carol''
       (join bob ''lobby'' ''bob'' (join alice ''lobby'' ''alice'' (init_world sample_db)))"

section \<open>Reachable states\<close>

text \<open>
  A client the Hub has never seen: it is in no map of the Hub. The address of a new
  \<^verbatim>\<open>Client\<close> is one.
\<close>

definition unknown :: "cref \<Rightarrow> world \<Rightarrow> bool" where
  "unknown c w \<longleftrightarrow> clients (hub w) c = None \<and> (\<forall>r. c \<notin> room_keys w r)"

text \<open>
  The states of the program: a call of \<^verbatim>\<open>serveWs\<close> sets up a new client; the Hub
  registers a client it has never seen, whose channel is open (\<^verbatim>\<open>serveWs\<close> sends every
  client once); it handles an unregister or a broadcast event, the latter with any
  iteration order of the room's map; a \<^verbatim>\<open>writePump\<close> takes a turn.
\<close>

inductive reachable :: "json \<Rightarrow> Repository \<Rightarrow> world \<Rightarrow> bool" for J :: json and d :: Repository where
  at_start: "reachable J d (init_world d)"
| serve:
    "reachable J d w \<Longrightarrow> unknown c w \<Longrightarrow> serve_world (serveWs J rm uname ok c w) = Some w' \<Longrightarrow>
     reachable J d w'"
| register:
    "reachable J d w \<Longrightarrow> unknown c w \<Longrightarrow> \<not> closed (send (heap w c)) \<Longrightarrow>
     reachable J d (Run_register c w)"
| unregister:
    "reachable J d w \<Longrightarrow> Run_unregister c w = Done w' \<Longrightarrow> reachable J d w'"
| broadcast:
    "reachable J d w \<Longrightarrow> range_order w (Room (fst (unmarshal_Envelope J message))) order \<Longrightarrow>
     state_of (Run_broadcast J message order w) = Some w' \<Longrightarrow> reachable J d w'"
| writer_turn: "reachable J d w \<Longrightarrow> reachable J d (writePump_step c write_ok w)"

text \<open>
  What holds of the Hub in every such state: a registered client is in the map of its
  room, the map of a room holds clients of that room only, and the channel of a
  registered client is open.
\<close>

definition hub_inv :: "world \<Rightarrow> bool" where
  "hub_inv w \<longleftrightarrow>
     (\<forall>c. clients (hub w) c \<noteq> None \<longrightarrow> c \<in> room_keys w (room (heap w c))) \<and>
     (\<forall>r c. c \<in> room_keys w r \<longrightarrow> room (heap w c) = r) \<and>
     (\<forall>c. clients (hub w) c \<noteq> None \<longrightarrow> \<not> closed (send (heap w c)))"

section \<open>Notions the claims speak of\<close>

text \<open>
  The connections registered in room \<open>r\<close>: those in the registry whose \<^verbatim>\<open>room\<close> field
  is \<open>r\<close>. \<open>deliver_to S m w\<close> is \<open>w\<close> with \<open>m\<close> enqueued once, at the back, to every
  connection of \<open>S\<close>, and nothing else changed.
\<close>

definition members :: "world \<Rightarrow> string \<Rightarrow> cref set" where
  "members w r = {c. clients (hub w) c \<noteq> None \<and> room (heap w c) = r}"

definition push :: "bytes \<Rightarrow> Client \<Rightarrow> Client" where
  "push m cl = cl\<lparr>send := (send cl)\<lparr>buf := buf (send cl) @ [m]\<rparr>\<rparr>"

definition deliver_to :: "cref set \<Rightarrow> bytes \<Rightarrow> world \<Rightarrow> world" where
  "deliver_to S m w = w\<lparr>heap := (\<lambda>x. if x \<in> S then push m (heap w x) else heap w x)\<rparr>"

text \<open>
  An outcome of the Hub with the record of \<^verbatim>\<open>SaveMessage\<close> calls and the log replaced:
  two outcomes that differ in nothing else leave the same registry, room index and queues.
\<close>

fun with_records :: "Message list \<Rightarrow> string list \<Rightarrow> outcome \<Rightarrow> outcome" where
  "with_records s l (Done w) = Done (w\<lparr>saved := s, logged := l\<rparr>)"
| "with_records s l (Blocked w c) = Blocked (w\<lparr>saved := s, logged := l\<rparr>) c"
| "with_records s l (Panic p) = Panic p"

text \<open>
  A repository whose \<^verbatim>\<open>SaveMessage\<close> fails, and \<open>three_clients\<close> with it in place of
  \<^verbatim>\<open>MockDB\<close>.
\<close>

definition failing_db :: Repository where
  "failing_db = sample_db\<lparr>SaveMessage := (\<lambda>msg. Some ''disk full'')\<rparr>"

definition three_clients_failing_db :: world where
  "three_clients_failing_db = three_clients\<lparr>hub := (hub three_clients)\<lparr>db := failing_db\<rparr>\<rparr>"

text \<open>
  \<open>flooded n\<close>: \<open>three_clients\<close> after \<open>n\<close> broadcasts of \<open>hi_stamped\<close> to the lobby while
  no \<^verbatim>\<open>writePump\<close> has taken a turn, so that alice and bob have \<open>n\<close> messages queued behind
  their history.
\<close>

definition msg_hi :: Message where
  "msg_hi = \<lparr>Username = ''alice'', Text = ''hi'', Timestamp = 1700000000\<rparr>"

definition flooded :: "nat \<Rightarrow> world" where
  "flooded n =
     three_clients
       \<lparr>heap := (\<lambda>x. if x \<in> {alice, bob}
                     then (heap three_clients x)
                            \<lparr>send := \<lparr>buf = sample_history ''lobby'' @ replicate n hi_stamped,
                                      closed = False\<rparr>\<rparr>
                     else heap three_clients x),
        saved := replicate n msg_hi\<rparr>"

text \<open>
  The text frames among the frames written to a transport, and the history as
  \<^verbatim>\<open>serveWs\<close> replays it for room \<open>rm\<close>: the envelopes of the messages that
  \<^verbatim>\<open>GetLastMessages\<close> returns, in its order, those left out that do not encode; nothing
  when the call fails.
\<close>

fun texts :: "frame list \<Rightarrow> bytes list" where
  "texts [] = []"
| "texts (TextMessage m # fs) = m # texts fs"
| "texts (CloseMessage # fs) = texts fs"

definition history_envelopes :: "json \<Rightarrow> Repository \<Rightarrow> string \<Rightarrow> bytes list" where
  "history_envelopes J d rm =
     (case GetLastMessages d rm 10 of
        (ms, Some e) \<Rightarrow> []
      | (ms, None) \<Rightarrow> map fst (filter snd (map (marshal_chat J ''chat_message'' rm) ms)))"

text \<open>
  \<open>history_first H c w\<close>: the text frames written to client \<open>c\<close>, then the messages its
  \<^verbatim>\<open>writePump\<close> took from the queue and failed to write (there are none unless the pump
  has returned), then the messages still queued, are together \<open>H\<close> followed by further
  messages.
\<close>

definition history_first :: "bytes list \<Rightarrow> cref \<Rightarrow> world \<Rightarrow> bool" where
  "history_first H c w \<longleftrightarrow>
     (\<exists>lost more. H @ more = texts (written w c) @ lost @ buf (send (heap w c)) \<and>
                  (lost = [] \<or> writer_exited w c))"

section \<open>Lemmas\<close>

lemma Run_register_clients:
  "clients (hub (Run_register c w)) = (clients (hub w))(c \<mapsto> True)"
  by (simp add: Run_register_def Let_def split: option.splits)


lemma room_keys_cong: "rooms (hub w') = rooms (hub w) \<Longrightarrow> room_keys w' = room_keys w"
  by (rule ext) (simp add: room_keys_def)

lemma room_keys_register:
  "room_keys (Run_register c w) r =
     (if r = room (heap w c) then insert c (room_keys w r) else room_keys w r)"
  by (auto simp: Run_register_def room_keys_def Let_def split: option.splits)

lemma heap_register [simp]: "heap (Run_register c w) = heap w"
  by (simp add: Run_register_def Let_def split: option.splits)

lemma hub_inv_init: "hub_inv (init_world d)"
  by (simp add: hub_inv_def init_world_def NewHub_def room_keys_def)

lemma hub_invI:
  assumes "\<And>c. clients (hub w) c \<noteq> None \<Longrightarrow> c \<in> room_keys w (room (heap w c))"
    and "\<And>r c. c \<in> room_keys w r \<Longrightarrow> room (heap w c) = r"
    and "\<And>c. clients (hub w) c \<noteq> None \<Longrightarrow> \<not> closed (send (heap w c))"
  shows "hub_inv w"
  unfolding hub_inv_def using assms by blast

lemma hub_inv_member: "hub_inv w \<Longrightarrow> clients (hub w) c \<noteq> None \<Longrightarrow> c \<in> room_keys w (room (heap w c))"
  unfolding hub_inv_def by blast

lemma hub_inv_room: "hub_inv w \<Longrightarrow> c \<in> room_keys w r \<Longrightarrow> room (heap w c) = r"
  unfolding hub_inv_def by blast

lemma hub_inv_open: "hub_inv w \<Longrightarrow> clients (hub w) c \<noteq> None \<Longrightarrow> \<not> closed (send (heap w c))"
  unfolding hub_inv_def by blast

lemma hub_inv_register:
  assumes inv: "hub_inv w" and new: "unknown c w" and op: "\<not> closed (send (heap w c))"
  shows "hub_inv (Run_register c w)"
proof (rule hub_invI)
  fix x
  assume "clients (hub (Run_register c w)) x \<noteq> None"
  then have "x = c \<or> clients (hub w) x \<noteq> None"
    by (simp add: Run_register_clients split: if_splits)
  then show "x \<in> room_keys (Run_register c w) (room (heap (Run_register c w) x))"
    using hub_inv_member[OF inv, of x] by (auto simp: room_keys_register)
next
  fix r x
  assume "x \<in> room_keys (Run_register c w) r"
  then have "(x = c \<and> r = room (heap w c)) \<or> x \<in> room_keys w r"
    by (simp add: room_keys_register split: if_splits)
  then show "room (heap (Run_register c w) x) = r"
    using hub_inv_room[OF inv, of x r] by auto
next
  fix x
  assume "clients (hub (Run_register c w)) x \<noteq> None"
  then have "x = c \<or> clients (hub w) x \<noteq> None"
    by (simp add: Run_register_clients split: if_splits)
  then show "\<not> closed (send (heap (Run_register c w) x))"
    using hub_inv_open[OF inv, of x] op by auto
qed

lemma Run_unregister_Done:
  assumes "Run_unregister c w = Done w'"
  shows "rooms (hub w') = rooms (hub w)"
    and "clients (hub w') = (clients (hub w))(c := None)"
    and "room (heap w' x) = room (heap w x)"
    and "x \<noteq> c \<Longrightarrow> heap w' x = heap w x"
    and "buf (send (heap w' x)) = buf (send (heap w x))"
  using assms
  by (auto simp: Run_unregister_def close_chan_def split: if_splits)

lemma hub_inv_unregister:
  assumes inv: "hub_inv w" and run: "Run_unregister c w = Done w'"
  shows "hub_inv w'"
proof (rule hub_invI)
  note u = Run_unregister_Done[OF run]
  have k: "room_keys w' = room_keys w" by (rule room_keys_cong) (rule u(1))
  fix x
  assume "clients (hub w') x \<noteq> None"
  then have x: "x \<noteq> c" "clients (hub w) x \<noteq> None"
    by (auto simp: u(2) split: if_splits)
  show "x \<in> room_keys w' (room (heap w' x))"
    using hub_inv_member[OF inv x(2)] by (simp add: k u(3))
  show "\<not> closed (send (heap w' x))"
    using hub_inv_open[OF inv x(2)] u(4)[OF x(1)] by simp
next
  note u = Run_unregister_Done[OF run]
  have k: "room_keys w' = room_keys w" by (rule room_keys_cong) (rule u(1))
  fix r x
  assume "x \<in> room_keys w' r"
  then show "room (heap w' x) = r"
    using hub_inv_room[OF inv, of x r] by (simp add: k u(3))
qed


lemma fanout_frame:
  "state_of (fanout m cs w) = Some w' \<Longrightarrow>
   hub w' = hub w \<and> saved w' = saved w \<and> logged w' = logged w \<and>
   written w' = written w \<and> writer_exited w' = writer_exited w \<and>
   (\<forall>x. room (heap w' x) = room (heap w x) \<and> username (heap w' x) = username (heap w x) \<and>
        closed (send (heap w' x)) = closed (send (heap w x)))"
proof (induction cs arbitrary: w)
  case Nil
  then show ?case by simp
next
  case (Cons c cs)
  show ?case
  proof (cases "clients (hub w) c = None")
    case True
    with Cons show ?thesis by simp
  next
    case False
    show ?thesis
    proof (cases "try_send (send (heap w c)) m")
      case (Sent ch)
      then have ch: "closed ch = closed (send (heap w c))"
        by (auto simp: try_send_def split: if_splits)
      let ?w1 = "w\<lparr>heap := (heap w)(c := (heap w c)\<lparr>send := ch\<rparr>)\<rparr>"
      from Cons.prems False Sent have "state_of (fanout m cs ?w1) = Some w'" by simp
      from Cons.IH[OF this] show ?thesis using ch by simp
    next
      case Full
      with Cons.prems False show ?thesis by simp
    next
      case SendOnClosed
      with Cons.prems False show ?thesis by simp
    qed
  qed
qed

lemma persist_frame:
  "hub (persist J env w) = hub w" "heap (persist J env w) = heap w"
  "written (persist J env w) = written w" "writer_exited (persist J env w) = writer_exited w"
  by (simp_all add: persist_def Let_def split: prod.splits option.splits bool.splits)

lemma Run_broadcast_frame:
  assumes "state_of (Run_broadcast J m order w) = Some w'"
  shows "hub w' = hub w \<and> written w' = written w \<and> writer_exited w' = writer_exited w \<and>
    (\<forall>x. room (heap w' x) = room (heap w x) \<and> username (heap w' x) = username (heap w x) \<and>
         closed (send (heap w' x)) = closed (send (heap w x)))"
proof -
  obtain env ok where e: "unmarshal_Envelope J m = (env, ok)" by (cases "unmarshal_Envelope J m")
  show ?thesis
  proof (cases ok)
    case True
    with assms e have "state_of (fanout m order (persist J env w)) = Some w'"
      by (simp add: Run_broadcast_def)
    from fanout_frame[OF this] show ?thesis by (simp add: persist_frame)
  next
    case False
    with assms e have "w' = w\<lparr>logged := logged w @ [''unmarshal envelope error:'']\<rparr>"
      by (simp add: Run_broadcast_def)
    then show ?thesis by simp
  qed
qed

lemma hub_inv_frame:
  assumes "hub_inv w" "hub w' = hub w"
    and "\<And>x. room (heap w' x) = room (heap w x)"
    and "\<And>x. closed (send (heap w' x)) = closed (send (heap w x))"
  shows "hub_inv w'"
proof -
  have k: "room_keys w' = room_keys w" by (rule room_keys_cong) (simp add: assms(2))
  show ?thesis using assms(1) unfolding hub_inv_def k assms(2) assms(3) assms(4) .
qed

lemma writePump_step_frame:
  "hub (writePump_step c ok w) = hub w"
  "room (heap (writePump_step c ok w) x) = room (heap w x)"
  "closed (send (heap (writePump_step c ok w) x)) = closed (send (heap w x))"
  by (simp_all add: writePump_step_def recv_def Let_def
      split: option.splits recv_result.splits list.splits)


lemma replay_frame:
  "serve_world (replay J c ms w) = Some w' \<Longrightarrow>
   hub w' = hub w \<and> (\<forall>x. x \<noteq> c \<longrightarrow> heap w' x = heap w x) \<and>
   room (heap w' c) = room (heap w c) \<and> closed (send (heap w' c)) = closed (send (heap w c))"
proof (induction ms arbitrary: w)
  case Nil
  then show ?case by simp
next
  case (Cons msg ms)
  obtain j ok where m: "marshal_chat J ''chat_message'' (room (heap w c)) msg = (j, ok)"
    by (cases "marshal_chat J ''chat_message'' (room (heap w c)) msg")
  show ?case
  proof (cases ok)
    case False
    let ?w1 = "w\<lparr>logged := logged w @ [''LastMessage Marshal error:'']\<rparr>"
    from Cons.prems m False have "serve_world (replay J c ms ?w1) = Some w'" by simp
    from Cons.IH[OF this] show ?thesis by simp
  next
    case True
    show ?thesis
    proof (cases "length (buf (send (heap w c))) < send_cap")
      case True
      with Cons.prems m \<open>ok\<close> have "serve_world (replay J c ms (enqueue c j w)) = Some w'" by simp
      from Cons.IH[OF this] show ?thesis by (simp add: enqueue_def)
    next
      case False
      with Cons.prems m \<open>ok\<close> have "w' = w" by simp
      then show ?thesis by simp
    qed
  qed
qed

lemma serveWs_frame:
  assumes "serve_world (serveWs J rm uname ok c w) = Some w'"
  shows "hub w' = hub w \<and> (\<forall>x. x \<noteq> c \<longrightarrow> heap w' x = heap w x)"
proof (cases "rm = [] \<or> uname = []")
  case True
  with assms show ?thesis by (simp add: serveWs_def)
next
  case ne: False
  show ?thesis
  proof (cases ok)
    case False
    with assms ne show ?thesis by (auto simp: serveWs_def)
  next
    case True
    let ?w1 = "w\<lparr>heap := (heap w)(c := \<lparr>send = make_chan, room = rm, username = uname\<rparr>),
                  written := (written w)(c := []),
                  writer_exited := (writer_exited w)(c := False)\<rparr>"
    obtain ms err where g: "GetLastMessages (db (hub w)) rm 10 = (ms, err)"
      by (cases "GetLastMessages (db (hub w)) rm 10")
    show ?thesis
    proof (cases err)
      case None
      with assms ne True g have "serve_world (replay J c ms ?w1) = Some w'"
        by (simp add: serveWs_def Let_def)
      from replay_frame[OF this] show ?thesis by simp
    next
      case (Some e)
      with assms ne True g show ?thesis by (auto simp: serveWs_def Let_def)
    qed
  qed
qed

lemma hub_inv_serve:
  assumes inv: "hub_inv w" and new: "unknown c w"
    and run: "serve_world (serveWs J rm uname ok c w) = Some w'"
  shows "hub_inv w'"
proof (rule hub_invI)
  note f = serveWs_frame[OF run]
  have k: "room_keys w' = room_keys w" by (rule room_keys_cong) (simp add: f)
  fix x
  assume "clients (hub w') x \<noteq> None"
  then have x: "clients (hub w) x \<noteq> None" by (simp add: f)
  with new have "x \<noteq> c" by (auto simp: unknown_def)
  then have h: "heap w' x = heap w x" using f by blast
  show "x \<in> room_keys w' (room (heap w' x))"
    using hub_inv_member[OF inv x] by (simp add: k h)
  show "\<not> closed (send (heap w' x))"
    using hub_inv_open[OF inv x] by (simp add: h)
next
  note f = serveWs_frame[OF run]
  have k: "room_keys w' = room_keys w" by (rule room_keys_cong) (simp add: f)
  fix r x
  assume a: "x \<in> room_keys w' r"
  then have "x \<noteq> c" using new by (auto simp: unknown_def k)
  then have h: "heap w' x = heap w x" using f by blast
  show "room (heap w' x) = r"
    using hub_inv_room[OF inv, of x r] a by (simp add: k h)
qed

lemma reachable_hub_inv: "reachable J d w \<Longrightarrow> hub_inv w"
proof (induction rule: reachable.induct)
  case at_start
  show ?case by (rule hub_inv_init)
next
  case (serve w c rm uname ok w')
  then show ?case by (blast intro: hub_inv_serve)
next
  case (register w c)
  then show ?case by (blast intro: hub_inv_register)
next
  case (unregister w c w')
  then show ?case by (blast intro: hub_inv_unregister)
next
  case (broadcast w message order w')
  from Run_broadcast_frame[OF broadcast.hyps(3)] broadcast.IH show ?case
    by (rule_tac hub_inv_frame[of w w']) simp_all
next
  case (writer_turn w c write_ok)
  then show ?case
    by (rule_tac hub_inv_frame[of w]) (simp_all add: writePump_step_frame)
qed


subsection \<open>The fan-out loop\<close>


lemma fanout_Done:
  assumes "distinct cs"
    and "\<And>c. c \<in> set cs \<Longrightarrow> clients (hub w) c \<noteq> None \<Longrightarrow>
           \<not> closed (send (heap w c)) \<and> length (buf (send (heap w c))) < send_cap"
  shows "fanout m cs w = Done (deliver_to {c \<in> set cs. clients (hub w) c \<noteq> None} m w)"
  using assms
proof (induction cs arbitrary: w)
  case Nil
  then show ?case by (simp add: deliver_to_def)
next
  case (Cons c cs)
  have d: "distinct cs" "c \<notin> set cs" using Cons.prems(1) by simp_all
  show ?case
  proof (cases "clients (hub w) c = None")
    case True
    have "fanout m cs w = Done (deliver_to {x \<in> set cs. clients (hub w) x \<noteq> None} m w)"
      by (rule Cons.IH[OF d(1)]) (simp add: Cons.prems(2))
    moreover have "{x \<in> set (c # cs). clients (hub w) x \<noteq> None} = {x \<in> set cs. clients (hub w) x \<noteq> None}"
      using True by auto
    ultimately show ?thesis by (simp add: True)
  next
    case False
    let ?w1 = "w\<lparr>heap := (heap w)(c := push m (heap w c))\<rparr>"
    from Cons.prems(2)[of c] False
    have ok: "\<not> closed (send (heap w c))" "length (buf (send (heap w c))) < send_cap" by simp_all
    have step: "fanout m (c # cs) w = fanout m cs ?w1"
      by (simp add: False ok try_send_def push_def)
    have "fanout m cs ?w1 = Done (deliver_to {x \<in> set cs. clients (hub ?w1) x \<noteq> None} m ?w1)"
    proof (rule Cons.IH[OF d(1)])
      fix x assume "x \<in> set cs" "clients (hub ?w1) x \<noteq> None"
      moreover from this(1) d(2) have "x \<noteq> c" by auto
      ultimately show "\<not> closed (send (heap ?w1 x)) \<and> length (buf (send (heap ?w1 x))) < send_cap"
        using Cons.prems(2)[of x] by simp
    qed
    moreover have "deliver_to {x \<in> set cs. clients (hub ?w1) x \<noteq> None} m ?w1
        = deliver_to {x \<in> set (c # cs). clients (hub w) x \<noteq> None} m w"
      using d(2) False by (auto simp: deliver_to_def fun_eq_iff)
    ultimately show ?thesis using step by simp
  qed
qed

lemma fanout_Blocked:
  assumes "c \<in> set cs" "clients (hub w) c \<noteq> None" "send_cap \<le> length (buf (send (heap w c)))"
    and "\<And>x. x \<in> set cs \<Longrightarrow> clients (hub w) x \<noteq> None \<Longrightarrow> \<not> closed (send (heap w x))"
  shows "\<exists>w' x. fanout m cs w = Blocked w' x \<and> hub w' = hub w \<and> x \<in> set cs \<and>
           clients (hub w) x \<noteq> None \<and> send_cap \<le> length (buf (send (heap w' x)))"
  using assms
proof (induction cs arbitrary: w)
  case Nil
  then show ?case by simp
next
  case (Cons a cs)
  show ?case
  proof (cases "clients (hub w) a = None")
    case True
    with Cons.prems(1,2) have "c \<in> set cs" by auto
    from Cons.IH[OF this Cons.prems(2,3)] Cons.prems(4) True show ?thesis by auto
  next
    case reg: False
    then have op: "\<not> closed (send (heap w a))" using Cons.prems(4)[of a] by simp
    show ?thesis
    proof (cases "length (buf (send (heap w a))) < send_cap")
      case False
      then have "fanout m (a # cs) w = Blocked w a"
        by (simp add: reg op try_send_def)
      with reg False show ?thesis by auto
    next
      case True
      let ?w1 = "w\<lparr>heap := (heap w)(a := push m (heap w a))\<rparr>"
      have step: "fanout m (a # cs) w = fanout m cs ?w1"
        by (simp add: reg op True try_send_def push_def)
      from True Cons.prems(3) have "c \<noteq> a" by auto
      with Cons.prems(1) have c: "c \<in> set cs" by simp
      have "\<exists>w' x. fanout m cs ?w1 = Blocked w' x \<and> hub w' = hub ?w1 \<and> x \<in> set cs \<and>
           clients (hub ?w1) x \<noteq> None \<and> send_cap \<le> length (buf (send (heap w' x)))"
      proof (rule Cons.IH[OF c])
        show "clients (hub ?w1) c \<noteq> None" using Cons.prems(2) by simp
        show "send_cap \<le> length (buf (send (heap ?w1 c)))"
          using Cons.prems(3) \<open>c \<noteq> a\<close> by simp
        fix x assume "x \<in> set cs" "clients (hub ?w1) x \<noteq> None"
        then show "\<not> closed (send (heap ?w1 x))"
          using Cons.prems(4)[of x] op by (simp add: push_def)
      qed
      then show ?thesis using step by auto
    qed
  qed
qed

subsection \<open>The sample states\<close>

lemma hist1: "show_int64 1699999990 = ''1699999990''"
  by (simp add: show_int64_def decimal.simps)

lemma hist2: "show_int64 1699999995 = ''1699999995''"
  by (simp add: show_int64_def decimal.simps)

lemma serveWs_sample:
  assumes "rm \<noteq> []" "uname \<noteq> []" "db (hub w) = sample_db"
  shows "serveWs json_sample rm uname True c w = Joined (arrive c rm uname w)"
  using assms
  by (simp add: serveWs_def Let_def sample_db_def MockDB_def
      json_sample_def sample_marshal_chat_def hist1 hist2 enqueue_def make_chan_def send_cap_def
      arrive_def new_client_def sample_history_def)

lemma serveWs_alice:
  "serveWs json_sample ''lobby'' ''alice'' True alice (init_world sample_db) = Joined alice_joined"
  unfolding alice_joined_def by (rule serveWs_sample) (simp_all add: init_world_def NewHub_def)

lemma unknown_init: "unknown c (init_world d)"
  by (simp add: unknown_def init_world_def NewHub_def room_keys_def)

lemma reachable_alice_joined: "reachable json_sample sample_db alice_joined"
  by (rule reachable.serve[OF reachable.at_start unknown_init,
        where c = alice and rm = "''lobby''" and uname = "''alice''" and ok = True])
     (simp add: serveWs_alice)

lemma unknown_alice_joined: "unknown c alice_joined"
  by (simp add: unknown_def alice_joined_def arrive_def new_client_def init_world_def NewHub_def
      room_keys_def)

lemma reachable_alice_registered:
  "reachable json_sample sample_db (Run_register alice alice_joined)"
  by (rule reachable.register[OF reachable_alice_joined unknown_alice_joined])
     (simp add: alice_joined_def arrive_def new_client_def)

section \<open>C1: the registry and the room index\<close>

text \<open>
  C1, as amended. In every reachable state a connection that is in the registry \<^verbatim>\<open>clients\<close>
  is in the map of its room in \<^verbatim>\<open>rooms\<close>. Handling an unregister event for it succeeds,
  removes it from the registry and closes its queue in that one step, and leaves \<^verbatim>\<open>rooms\<close>
  as it is: the connection stays in the map of its room (the broadcast loop skips such
  entries).
\<close>

theorem registry_within_room_index:
  assumes "reachable J d w" and "clients (hub w) c \<noteq> None"
  shows "c \<in> room_keys w (room (heap w c)) \<and>
         (\<exists>w'. Run_unregister c w = Done w' \<and> clients (hub w') c = None \<and>
               closed (send (heap w' c)) \<and> rooms (hub w') = rooms (hub w) \<and>
               c \<in> room_keys w' (room (heap w' c)))"
proof -
  have inv: "hub_inv w" using assms(1) by (rule reachable_hub_inv)
  have mem: "c \<in> room_keys w (room (heap w c))" using inv assms(2) by (rule hub_inv_member)
  have op: "\<not> closed (send (heap w c))" using inv assms(2) by (rule hub_inv_open)
  define w' where "w' = w\<lparr>hub := (hub w)\<lparr>clients := (clients (hub w))(c := None)\<rparr>,
                         heap := (heap w)(c := (heap w c)\<lparr>send := (send (heap w c))\<lparr>closed := True\<rparr>\<rparr>)\<rparr>"
  have run: "Run_unregister c w = Done w'"
    using assms(2) op by (simp add: Run_unregister_def close_chan_def w'_def)
  have "clients (hub w') c = None" "closed (send (heap w' c))" "rooms (hub w') = rooms (hub w)"
    by (simp_all add: w'_def)
  moreover have "c \<in> room_keys w' (room (heap w' c))"
    using mem by (simp add: w'_def room_keys_def)
  ultimately show ?thesis using mem run by blast
qed

text \<open>The theorem at alice, registered in the lobby.\<close>

theorem registry_within_room_index_witness:
  "reachable json_sample sample_db (Run_register alice alice_joined) \<and>
   clients (hub (Run_register alice alice_joined)) alice \<noteq> None \<and>
   alice \<in> room_keys (Run_register alice alice_joined) ''lobby'' \<and>
   (\<exists>w'. Run_unregister alice (Run_register alice alice_joined) = Done w' \<and>
         clients (hub w') alice = None \<and> closed (send (heap w' alice)) \<and>
         alice \<in> room_keys w' ''lobby'')"
proof -
  let ?w = "Run_register alice alice_joined"
  have r: "reachable json_sample sample_db ?w" by (rule reachable_alice_registered)
  have c: "clients (hub ?w) alice \<noteq> None" by (simp add: Run_register_clients)
  have rm: "room (heap ?w alice) = ''lobby''" by (simp add: alice_joined_def arrive_def new_client_def)
  from registry_within_room_index[OF r c] obtain w' where
    "alice \<in> room_keys ?w (room (heap ?w alice))"
    "Run_unregister alice ?w = Done w'" "clients (hub w') alice = None"
    "closed (send (heap w' alice))" "alice \<in> room_keys w' (room (heap w' alice))"
    by blast
  moreover from this(2) have "room (heap w' alice) = room (heap ?w alice)"
    by (rule Run_unregister_Done(3))
  ultimately show ?thesis using r c rm by auto
qed

text \<open>
  C1 as stated fails from right to left: after alice has registered and unregistered she
  is in the map of the lobby and not in the registry.
\<close>

theorem registry_iff_room_index_counterexample:
  "\<not> (\<forall>w c. reachable json_sample sample_db w \<longrightarrow>
        (clients (hub w) c \<noteq> None \<longleftrightarrow> c \<in> room_keys w (room (heap w c))))"
proof
  assume a: "\<forall>w c. reachable json_sample sample_db w \<longrightarrow>
        (clients (hub w) c \<noteq> None \<longleftrightarrow> c \<in> room_keys w (room (heap w c)))"
  let ?w = "Run_register alice alice_joined"
  have c: "clients (hub ?w) alice \<noteq> None" by (simp add: Run_register_clients)
  have op: "\<not> closed (send (heap ?w alice))" by (simp add: alice_joined_def arrive_def new_client_def)
  have mem: "alice \<in> room_keys ?w (room (heap ?w alice))"
    by (simp add: room_keys_register)
  define w' where "w' = ?w\<lparr>hub := (hub ?w)\<lparr>clients := (clients (hub ?w))(alice := None)\<rparr>,
      heap := (heap ?w)(alice := (heap ?w alice)\<lparr>send := (send (heap ?w alice))\<lparr>closed := True\<rparr>\<rparr>)\<rparr>"
  have run: "Run_unregister alice ?w = Done w'"
    using c op by (simp add: Run_unregister_def close_chan_def w'_def)
  have r: "reachable json_sample sample_db w'"
    by (rule reachable.unregister[OF reachable_alice_registered run])
  have gone: "clients (hub w') alice = None" by (simp add: w'_def)
  have still: "alice \<in> room_keys w' (room (heap w' alice))"
    using mem by (simp add: w'_def room_keys_def)
  from a r gone still show False by blast
qed


section \<open>More sample states\<close>

lemma Run_register_db [simp]: "db (hub (Run_register c w)) = db (hub w)"
  by (simp add: Run_register_def Let_def split: option.splits)

lemma reachable_db: "reachable J d w \<Longrightarrow> db (hub w) = d"
proof (induction rule: reachable.induct)
  case at_start
  show ?case by (simp add: init_world_def NewHub_def)
next
  case (serve w c rm uname ok w')
  from serveWs_frame[OF serve.hyps(3)] serve.IH show ?case by simp
next
  case (register w c)
  then show ?case by simp
next
  case (unregister w c w')
  from unregister.hyps(2) unregister.IH show ?case
    by (auto simp: Run_unregister_def close_chan_def split: if_splits)
next
  case (broadcast w message order w')
  from Run_broadcast_frame[OF broadcast.hyps(3)] broadcast.IH show ?case by simp
next
  case (writer_turn w c write_ok)
  then show ?case by (simp add: writePump_step_frame)
qed

lemma hub_arrive [simp]: "hub (arrive c rm uname w) = hub w"
  by (simp add: arrive_def new_client_def)

lemma heap_arrive:
  "heap (arrive c rm uname w) =
     (heap w)(c := \<lparr>send = \<lparr>buf = sample_history rm, closed = False\<rparr>, room = rm, username = uname\<rparr>)"
  by (simp add: arrive_def new_client_def)

lemma room_keys_arrive [simp]: "room_keys (arrive c rm uname w) = room_keys w"
  by (rule room_keys_cong) simp

lemma unknown_arrive [simp]: "unknown x (arrive c rm uname w) = unknown x w"
  by (simp add: unknown_def)

lemma heap_join:
  "heap (join c rm uname w) =
     (heap w)(c := \<lparr>send = \<lparr>buf = sample_history rm, closed = False\<rparr>, room = rm, username = uname\<rparr>)"
  by (simp add: join_def heap_arrive)

lemma clients_join: "clients (hub (join c rm uname w)) = (clients (hub w))(c \<mapsto> True)"
  by (simp add: join_def Run_register_clients)

lemma room_keys_join:
  "room_keys (join c rm uname w) r = (if r = rm then insert c (room_keys w r) else room_keys w r)"
  by (simp add: join_def room_keys_register heap_arrive)

lemma unknown_join: "unknown x (join c rm uname w) \<longleftrightarrow> x \<noteq> c \<and> unknown x w"
  by (auto simp: unknown_def clients_join room_keys_join)

lemma members_join:
  "unknown c w \<Longrightarrow>
   members (join c rm uname w) r = (if r = rm then insert c (members w r) else members w r)"
  by (auto simp: members_def clients_join heap_join unknown_def)

lemma reachable_join:
  assumes "reachable json_sample sample_db w" "unknown c w" "rm \<noteq> []" "uname \<noteq> []"
  shows "reachable json_sample sample_db (join c rm uname w)"
proof -
  have "serveWs json_sample rm uname True c w = Joined (arrive c rm uname w)"
    using assms(3,4) reachable_db[OF assms(1)] by (rule serveWs_sample)
  then have "reachable json_sample sample_db (arrive c rm uname w)"
    using reachable.serve[OF assms(1,2), where rm = rm and uname = uname and ok = True
        and w' = "arrive c rm uname w"] by simp
  then show ?thesis
    unfolding join_def
    by (rule reachable.register) (simp_all add: assms(2) heap_arrive)
qed

lemma reachable_three_clients: "reachable json_sample sample_db three_clients"
  unfolding three_clients_def
  by (intro reachable_join reachable.at_start) (simp_all add: unknown_join unknown_init)

lemma members_init: "members (init_world d) r = {}"
  by (simp add: members_def init_world_def NewHub_def)

lemma members_three_clients:
  "members three_clients ''lobby'' = {alice, bob}" "members three_clients ''other'' = {carol}"
  unfolding three_clients_def
  by (auto simp: members_join unknown_join unknown_init members_init)

lemma room_keys_init: "room_keys (init_world d) r = {}"
  by (simp add: room_keys_def init_world_def NewHub_def)

lemma room_keys_three_clients:
  "room_keys three_clients ''lobby'' = {alice, bob}"
  unfolding three_clients_def
  by (auto simp: room_keys_join room_keys_init)

subsection \<open>A broadcast when no queue is full\<close>

lemma members_eq_order:
  assumes "hub_inv w" "range_order w r order"
  shows "members w r = {c \<in> set order. clients (hub w) c \<noteq> None}"
proof -
  have o: "set order = room_keys w r" using assms(2) by (simp add: range_order_def)
  show ?thesis
    unfolding members_def o
    using hub_inv_member[OF assms(1)] hub_inv_room[OF assms(1)] by blast
qed

lemma unmarshal_hi_stamped:
  \<open>unmarshal_Envelope json_sample hi_stamped =
     (\<lparr>Type = ''chat_message'', Room = ''lobby'',
       Payload = ''{"username":"alice","text":"hi","timestamp":1700000000}''\<rparr>, True)\<close>
  by (simp add: json_sample_def lookup_or_def sample_envelopes_def frame_hi_def hi_stamped_def)

lemma heap_three_clients:
  "heap three_clients alice =
     \<lparr>send = \<lparr>buf = sample_history ''lobby'', closed = False\<rparr>, room = ''lobby'', username = ''alice''\<rparr>"
  "heap three_clients bob =
     \<lparr>send = \<lparr>buf = sample_history ''lobby'', closed = False\<rparr>, room = ''lobby'', username = ''bob''\<rparr>"
  "heap three_clients carol =
     \<lparr>send = \<lparr>buf = sample_history ''other'', closed = False\<rparr>, room = ''other'', username = ''carol''\<rparr>"
  by (simp_all add: three_clients_def heap_join)

lemma length_sample_history [simp]: "length (sample_history rm) = 2"
  by (simp add: sample_history_def)

lemma Run_broadcast_deliver:
  assumes "hub_inv w"
    and "unmarshal_Envelope J message = (env, True)"
    and "range_order w (Room env) order"
    and "\<And>c. c \<in> members w (Room env) \<Longrightarrow> length (buf (send (heap w c))) < send_cap"
  shows "Run_broadcast J message order w =
           Done (deliver_to (members w (Room env)) message (persist J env w))"
proof -
  let ?R = "Room env" and ?p = "persist J env w"
  have m: "members w ?R = {c \<in> set order. clients (hub w) c \<noteq> None}"
    using assms(1,3) by (rule members_eq_order)
  have d: "distinct order" using assms(3) by (simp add: range_order_def)
  have "fanout message order ?p = Done (deliver_to {c \<in> set order. clients (hub ?p) c \<noteq> None} message ?p)"
  proof (rule fanout_Done[OF d])
    fix c assume "c \<in> set order" "clients (hub ?p) c \<noteq> None"
    then have c: "c \<in> members w ?R" "clients (hub w) c \<noteq> None" by (simp_all add: m persist_frame)
    show "\<not> closed (send (heap ?p c)) \<and> length (buf (send (heap ?p c))) < send_cap"
      using hub_inv_open[OF assms(1) c(2)] assms(4)[OF c(1)] by (simp add: persist_frame)
  qed
  then show ?thesis by (simp add: Run_broadcast_def assms(2) m persist_frame)
qed

section \<open>C4: a broadcast reaches the room and nobody else\<close>

text \<open>
  C4. In a reachable state, let the broadcast event decode to an envelope for room \<open>R\<close>,
  and let no connection registered in \<open>R\<close> have a full queue. Then the Hub handles the event
  without blocking or panicking, whatever the iteration order: the raw bytes of the event
  are enqueued once to each of the connections registered in \<open>R\<close>, so the connections
  whose queue has changed are exactly those \<open>N\<close>, and the queue of every other connection
  is as it was. (The type tag plays no part in the fan-out, so this holds for a
  \<^verbatim>\<open>chat_message\<close> in particular.)
\<close>

theorem broadcast_reaches_room:
  assumes "reachable J d w"
    and "unmarshal_Envelope J message = (env, True)"
    and "range_order w (Room env) order"
    and "\<And>c. c \<in> members w (Room env) \<Longrightarrow> length (buf (send (heap w c))) < send_cap"
  shows "\<exists>w'. Run_broadcast J message order w = Done w' \<and> hub w' = hub w \<and>
           (\<forall>c. buf (send (heap w' c)) =
                 (if c \<in> members w (Room env) then buf (send (heap w c)) @ [message]
                  else buf (send (heap w c)))) \<and>
           {c. buf (send (heap w' c)) \<noteq> buf (send (heap w c))} = members w (Room env) \<and>
           finite (members w (Room env))"
proof -
  let ?R = "Room env"
  let ?w' = "deliver_to (members w ?R) message (persist J env w)"
  have inv: "hub_inv w" using assms(1) by (rule reachable_hub_inv)
  have "members w ?R = {c \<in> set order. clients (hub w) c \<noteq> None}"
    using inv assms(3) by (rule members_eq_order)
  then have fin: "finite (members w ?R)" by simp
  have run: "Run_broadcast J message order w = Done ?w'"
    using inv assms(2,3,4) by (rule Run_broadcast_deliver)
  have "hub ?w' = hub w" by (simp add: deliver_to_def persist_frame)
  moreover have b: "\<forall>c. buf (send (heap ?w' c)) =
                 (if c \<in> members w ?R then buf (send (heap w c)) @ [message]
                  else buf (send (heap w c)))"
    by (simp add: deliver_to_def persist_frame push_def)
  moreover have "{c. buf (send (heap ?w' c)) \<noteq> buf (send (heap w c))} = members w ?R"
    using b by auto
  ultimately show ?thesis using run fin by blast
qed

text \<open>
  The theorem at \<open>three_clients\<close>, the loop visiting bob before alice: both get the
  stamped message behind their history, carol in the other room gets nothing.
\<close>

theorem broadcast_reaches_room_witness:
  "\<exists>w'. Run_broadcast json_sample hi_stamped [bob, alice] three_clients = Done w' \<and>
         buf (send (heap w' alice)) = sample_history ''lobby'' @ [hi_stamped] \<and>
         buf (send (heap w' bob)) = sample_history ''lobby'' @ [hi_stamped] \<and>
         buf (send (heap w' carol)) = sample_history ''other'' \<and>
         {c. buf (send (heap w' c)) \<noteq> buf (send (heap three_clients c))} = {alice, bob}"
proof -
  have o: "range_order three_clients ''lobby'' [bob, alice]"
    by (auto simp: range_order_def room_keys_three_clients)
  have f: "\<And>c. c \<in> members three_clients ''lobby'' \<Longrightarrow>
             length (buf (send (heap three_clients c))) < send_cap"
    by (auto simp: members_three_clients heap_three_clients send_cap_def)
  from broadcast_reaches_room[OF reachable_three_clients unmarshal_hi_stamped, of "[bob, alice]"] o f
  obtain w' where w': "Run_broadcast json_sample hi_stamped [bob, alice] three_clients = Done w'"
    "\<forall>c. buf (send (heap w' c)) =
         (if c \<in> members three_clients ''lobby'' then buf (send (heap three_clients c)) @ [hi_stamped]
          else buf (send (heap three_clients c)))"
    "{c. buf (send (heap w' c)) \<noteq> buf (send (heap three_clients c))} = members three_clients ''lobby''"
    by auto
  from w'(2) have "buf (send (heap w' alice)) = sample_history ''lobby'' @ [hi_stamped]"
    "buf (send (heap w' bob)) = sample_history ''lobby'' @ [hi_stamped]"
    "buf (send (heap w' carol)) = sample_history ''other''"
    by (simp_all add: members_three_clients heap_three_clients)
  with w'(1,3) show ?thesis by (simp add: members_three_clients)
qed


section \<open>C5: unregistering twice\<close>

text \<open>
  C5. In a reachable state the Hub handles two unregister events for the same connection
  without a panic. The second leaves the state as it is. If the connection was registered
  its queue was open and the first event closes it; if it was not, the first event leaves
  the state as it is too. The queue is therefore closed once: a second \<^verbatim>\<open>close\<close> would
  be the panic of \<open>close_chan\<close>.
\<close>

theorem double_unregister:
  assumes "reachable J d w"
  shows "\<exists>w1. Run J [(Unregister c, o1), (Unregister c, o2)] w = Done w1 \<and>
              Run_unregister c w = Done w1 \<and> Run_unregister c w1 = Done w1 \<and>
              clients (hub w1) c = None \<and>
              (if clients (hub w) c \<noteq> None
               then \<not> closed (send (heap w c)) \<and> closed (send (heap w1 c))
               else w1 = w)"
proof (cases "clients (hub w) c = None")
  case True
  then have "Run_unregister c w = Done w" by (simp add: Run_unregister_def)
  then show ?thesis using True by simp
next
  case False
  have inv: "hub_inv w" using assms by (rule reachable_hub_inv)
  have op: "\<not> closed (send (heap w c))" using inv False by (rule hub_inv_open)
  define w1 where "w1 = w\<lparr>hub := (hub w)\<lparr>clients := (clients (hub w))(c := None)\<rparr>,
                         heap := (heap w)(c := (heap w c)\<lparr>send := (send (heap w c))\<lparr>closed := True\<rparr>\<rparr>)\<rparr>"
  have first: "Run_unregister c w = Done w1"
    by (simp add: False op Run_unregister_def close_chan_def w1_def)
  have gone: "clients (hub w1) c = None" by (simp add: w1_def)
  then have second: "Run_unregister c w1 = Done w1" by (simp add: Run_unregister_def)
  have cl: "closed (send (heap w1 c))" by (simp add: w1_def)
  have "Run J [(Unregister c, o1), (Unregister c, o2)] w = Done w1"
    by (simp add: first second)
  with first second gone cl op False show ?thesis by simp
qed

text \<open>The theorem at alice in \<open>three_clients\<close>.\<close>

theorem double_unregister_witness:
  "\<exists>w1. Run json_sample [(Unregister alice, []), (Unregister alice, [])] three_clients = Done w1 \<and>
        Run_unregister alice w1 = Done w1 \<and>
        clients (hub w1) alice = None \<and>
        \<not> closed (send (heap three_clients alice)) \<and> closed (send (heap w1 alice))"
proof -
  have "clients (hub three_clients) alice \<noteq> None"
    by (simp add: three_clients_def clients_join)
  with double_unregister[OF reachable_three_clients, of alice "[]" "[]"]
  show ?thesis by auto
qed

subsection \<open>The flooded states\<close>

lemma unmarshal_msg_hi:
  \<open>unmarshal_Message json_sample ''{"username":"alice","text":"hi","timestamp":1700000000}'' = (msg_hi, True)\<close>
  by (simp add: json_sample_def lookup_or_def sample_messages_def msg_hi_def)

lemma hub_flooded [simp]: "hub (flooded n) = hub three_clients"
  by (simp add: flooded_def)

lemma room_flooded [simp]: "room (heap (flooded n) x) = room (heap three_clients x)"
  by (simp add: flooded_def)

lemma room_keys_flooded [simp]: "room_keys (flooded n) = room_keys three_clients"
  by (rule room_keys_cong) simp

lemma members_flooded [simp]: "members (flooded n) = members three_clients"
  by (rule ext) (simp add: members_def)

lemma buf_flooded:
  "buf (send (heap (flooded n) alice)) = sample_history ''lobby'' @ replicate n hi_stamped"
  "buf (send (heap (flooded n) bob)) = sample_history ''lobby'' @ replicate n hi_stamped"
  by (simp_all add: flooded_def)

lemma saved_three_clients: "saved three_clients = []"
  by (simp add: three_clients_def join_def arrive_def new_client_def Run_register_def Let_def
      init_world_def split: option.splits)

lemma flooded_0: "flooded 0 = three_clients"
proof -
  have "(\<lambda>x. if x \<in> {alice, bob}
              then (heap three_clients x)\<lparr>send := \<lparr>buf = sample_history ''lobby'' @ replicate 0 hi_stamped,
                                                closed = False\<rparr>\<rparr>
              else heap three_clients x) = heap three_clients"
    by (auto simp: fun_eq_iff heap_three_clients)
  then show ?thesis by (simp add: flooded_def saved_three_clients)
qed

lemma db_three_clients: "db (hub three_clients) = sample_db"
  using reachable_three_clients by (rule reachable_db)

lemma persist_flooded:
  assumes "unmarshal_Envelope json_sample hi_stamped = (env, True)"
  shows "persist json_sample env (flooded n) = (flooded n)\<lparr>saved := replicate (Suc n) msg_hi\<rparr>"
proof -
  have env: \<open>env = \<lparr>Type = ''chat_message'', Room = ''lobby'',
       Payload = ''{"username":"alice","text":"hi","timestamp":1700000000}''\<rparr>\<close>
    using assms by (simp add: unmarshal_hi_stamped)
  have "saved (flooded n) @ [msg_hi] = replicate (Suc n) msg_hi"
    by (simp add: flooded_def replicate_append_same)
  then show ?thesis
    by (simp add: persist_def env unmarshal_msg_hi Let_def db_three_clients sample_db_def MockDB_def)
qed

lemma range_order_flooded: "range_order (flooded n) ''lobby'' [alice, bob]"
  by (auto simp: range_order_def room_keys_three_clients)

lemma deliver_flooded:
  "deliver_to {alice, bob} hi_stamped ((flooded n)\<lparr>saved := replicate (Suc n) msg_hi\<rparr>) = flooded (Suc n)"
  by (simp add: deliver_to_def flooded_def push_def fun_eq_iff replicate_append_same)

lemma Run_broadcast_flooded:
  assumes "reachable json_sample sample_db (flooded n)" "n < 254"
  shows "Run_broadcast json_sample hi_stamped [alice, bob] (flooded n) = Done (flooded (Suc n))"
proof -
  obtain env where e: "unmarshal_Envelope json_sample hi_stamped = (env, True)" "Room env = ''lobby''"
    using unmarshal_hi_stamped by simp
  have o: "range_order (flooded n) (Room env) [alice, bob]"
    by (simp add: e(2) range_order_flooded)
  have full: "\<And>c. c \<in> members (flooded n) (Room env) \<Longrightarrow>
                 length (buf (send (heap (flooded n) c))) < send_cap"
    using assms(2) by (auto simp: e(2) members_three_clients buf_flooded send_cap_def)
  have "Run_broadcast json_sample hi_stamped [alice, bob] (flooded n) =
        Done (deliver_to (members (flooded n) (Room env)) hi_stamped (persist json_sample env (flooded n)))"
    using reachable_hub_inv[OF assms(1)] e(1) o full by (rule Run_broadcast_deliver)
  then show ?thesis
    by (simp only: persist_flooded[OF e(1)] e(2) members_flooded members_three_clients deliver_flooded)
qed

lemma reachable_flooded: "n \<le> 254 \<Longrightarrow> reachable json_sample sample_db (flooded n)"
proof (induction n)
  case 0
  show ?case by (simp add: flooded_0 reachable_three_clients)
next
  case (Suc n)
  then have r: "reachable json_sample sample_db (flooded n)" and n: "n < 254" by simp_all
  have "state_of (Run_broadcast json_sample hi_stamped [alice, bob] (flooded n)) = Some (flooded (Suc n))"
    by (simp add: Run_broadcast_flooded[OF r n])
  moreover have "range_order (flooded n) (Room (fst (unmarshal_Envelope json_sample hi_stamped))) [alice, bob]"
    by (simp add: unmarshal_hi_stamped range_order_flooded)
  ultimately show ?case using r by (rule_tac reachable.broadcast)
qed

section \<open>C2: a full queue at broadcast time\<close>

text \<open>
  C2 does not hold of the code; this is what the code does. In a reachable state, let the
  broadcast event decode to an envelope for room \<open>R\<close> and let some connection \<open>c\<close>
  registered in \<open>R\<close> have a full queue. Then the Hub ends up blocked in
  \<^verbatim>\<open>h.unregister <- client\<close> for a connection of \<open>R\<close> whose queue is full. Registry and
  room index are as before, so \<open>c\<close> is still registered and still in the map of its room,
  and whatever events follow (a later broadcast, an unregister), the Hub handles none of
  them.
\<close>

theorem full_queue_blocks_hub:
  assumes "reachable J d w"
    and "unmarshal_Envelope J message = (env, True)"
    and "range_order w (Room env) order"
    and "c \<in> members w (Room env)"
    and "send_cap \<le> length (buf (send (heap w c)))"
  shows "\<exists>w' x. Run_broadcast J message order w = Blocked w' x \<and>
           x \<in> members w (Room env) \<and> send_cap \<le> length (buf (send (heap w' x))) \<and>
           clients (hub w') = clients (hub w) \<and> rooms (hub w') = rooms (hub w) \<and>
           c \<in> members w' (Room env) \<and> c \<in> room_keys w' (Room env) \<and>
           (\<forall>evs. Run J ((Broadcast message, order) # evs) w = Blocked w' x)"
proof -
  let ?R = "Room env" and ?p = "persist J env w"
  have inv: "hub_inv w" using assms(1) by (rule reachable_hub_inv)
  have m: "members w ?R = {c \<in> set order. clients (hub w) c \<noteq> None}"
    using inv assms(3) by (rule members_eq_order)
  have c: "c \<in> set order" "clients (hub w) c \<noteq> None" using assms(4) by (simp_all add: m)
  have "\<exists>w' x. fanout message order ?p = Blocked w' x \<and> hub w' = hub ?p \<and> x \<in> set order \<and>
           clients (hub ?p) x \<noteq> None \<and> send_cap \<le> length (buf (send (heap w' x)))"
  proof (rule fanout_Blocked[OF c(1)])
    show "clients (hub ?p) c \<noteq> None" using c(2) by (simp add: persist_frame)
    show "send_cap \<le> length (buf (send (heap ?p c)))" using assms(5) by (simp add: persist_frame)
    fix x assume "x \<in> set order" "clients (hub ?p) x \<noteq> None"
    then show "\<not> closed (send (heap ?p x))"
      using hub_inv_open[OF inv, of x] by (simp add: persist_frame)
  qed
  then obtain w' x where f: "fanout message order ?p = Blocked w' x" "hub w' = hub w"
    "x \<in> set order" "clients (hub w) x \<noteq> None" "send_cap \<le> length (buf (send (heap w' x)))"
    by (auto simp: persist_frame)
  have run: "Run_broadcast J message order w = Blocked w' x"
    by (simp add: Run_broadcast_def assms(2) f(1))
  then have "state_of (Run_broadcast J message order w) = Some w'" by simp
  from Run_broadcast_frame[OF this] have rm: "room (heap w' c) = room (heap w c)" by blast
  have "x \<in> members w ?R" using f(3,4) by (simp add: m)
  moreover have "c \<in> members w' ?R" using assms(4) by (simp add: members_def f(2) rm)
  moreover have "c \<in> room_keys w' ?R"
    using c(1) assms(3) by (simp add: range_order_def room_keys_def f(2))
  moreover have "\<forall>evs. Run J ((Broadcast message, order) # evs) w = Blocked w' x"
    by (simp add: run)
  ultimately show ?thesis using run f(2,5) by auto
qed

text \<open>
  The theorem at \<open>flooded 254\<close>, a reachable state in which the queues of alice and bob
  hold 256 messages: the next broadcast to the lobby blocks the Hub, alice stays
  registered, and the unregister event and the broadcast that follow are never handled.
\<close>

theorem full_queue_blocks_hub_witness:
  "reachable json_sample sample_db (flooded 254) \<and>
   length (buf (send (heap (flooded 254) alice))) = send_cap \<and>
   (\<exists>w' x. Run_broadcast json_sample hi_stamped [alice, bob] (flooded 254) = Blocked w' x \<and>
      clients (hub w') alice \<noteq> None \<and> alice \<in> room_keys w' ''lobby'' \<and>
      Run json_sample [(Broadcast hi_stamped, [alice, bob]), (Unregister alice, []),
                       (Broadcast hi_stamped, [alice, bob])] (flooded 254) = Blocked w' x)"
proof -
  have r: "reachable json_sample sample_db (flooded 254)" by (rule reachable_flooded) simp
  have l: "length (buf (send (heap (flooded 254) alice))) = send_cap"
    by (simp add: buf_flooded send_cap_def)
  have a: "alice \<in> members (flooded 254) ''lobby''" by (simp add: members_three_clients)
  from full_queue_blocks_hub[OF r unmarshal_hi_stamped, of "[alice, bob]" alice]
    range_order_flooded[of 254] a l
  obtain w' x where w': "Run_broadcast json_sample hi_stamped [alice, bob] (flooded 254) = Blocked w' x"
    "alice \<in> members w' ''lobby''" "alice \<in> room_keys w' ''lobby''"
    "\<forall>evs. Run json_sample ((Broadcast hi_stamped, [alice, bob]) # evs) (flooded 254) = Blocked w' x"
    by auto
  from w'(2) have "clients (hub w') alice \<noteq> None" by (simp add: members_def)
  with r l w'(1,3,4) show ?thesis by blast
qed


subsection \<open>The older version at a full queue\<close>

text \<open>
  The loop of the older \<^verbatim>\<open>hub.go\<close> at \<open>flooded 254\<close>: it closes the queues of alice
  and bob and deletes them from the registry while it iterates, and leaves them in the map
  of the lobby; the next broadcast to the lobby sends on a closed channel and panics.
\<close>

lemma heap_flooded:
  "heap (flooded n) alice =
     \<lparr>send = \<lparr>buf = sample_history ''lobby'' @ replicate n hi_stamped, closed = False\<rparr>,
      room = ''lobby'', username = ''alice''\<rparr>"
  "heap (flooded n) bob =
     \<lparr>send = \<lparr>buf = sample_history ''lobby'' @ replicate n hi_stamped, closed = False\<rparr>,
      room = ''lobby'', username = ''bob''\<rparr>"
  by (simp_all add: flooded_def heap_three_clients)

lemma hub_go_evicts_then_panics:
  "\<exists>w'. fanout_hub_go hi_stamped [alice, bob] (flooded 254) = Done w' \<and>
        clients (hub w') alice = None \<and> closed (send (heap w' alice)) \<and>
        alice \<in> room_keys w' ''lobby'' \<and>
        fanout_hub_go hi_stamped [alice, bob] w' = Panic ''send on closed channel''"
proof -
  let ?w = "flooded 254"
  let ?w1 = "?w\<lparr>heap := (heap ?w)(alice := (heap ?w alice)\<lparr>send := (send (heap ?w alice))\<lparr>closed := True\<rparr>\<rparr>),
                hub := (hub ?w)\<lparr>clients := (clients (hub ?w))(alice := None)\<rparr>\<rparr>"
  let ?w2 = "?w1\<lparr>heap := (heap ?w1)(bob := (heap ?w1 bob)\<lparr>send := (send (heap ?w1 bob))\<lparr>closed := True\<rparr>\<rparr>),
                hub := (hub ?w1)\<lparr>clients := (clients (hub ?w1))(bob := None)\<rparr>\<rparr>"
  have "fanout_hub_go hi_stamped [alice, bob] ?w = Done ?w2"
    by (simp add: try_send_def close_chan_def heap_flooded send_cap_def)
  moreover have "fanout_hub_go hi_stamped [alice, bob] ?w2 = Panic ''send on closed channel''"
    by (simp add: try_send_def heap_flooded)
  moreover have "alice \<in> room_keys ?w2 ''lobby''"
    by (simp add: room_keys_def room_keys_three_clients[unfolded room_keys_def])
  ultimately show ?thesis by (intro exI[of _ ?w2]) (simp add: heap_flooded)
qed

subsection \<open>The fan-out loop does not read the records\<close>

lemma fanout_with_records:
  "fanout m cs (w\<lparr>saved := s, logged := l\<rparr>) = with_records s l (fanout m cs w)"
proof (induction cs arbitrary: w)
  case Nil
  show ?case by simp
next
  case (Cons c cs)
  show ?case
  proof (cases "clients (hub w) c = None")
    case True
    then show ?thesis by (simp add: Cons.IH)
  next
    case False
    show ?thesis
    proof (cases "try_send (send (heap w c)) m")
      case (Sent ch)
      let ?H = "(heap w)(c := (heap w c)\<lparr>send := ch\<rparr>)"
      have eq: "w\<lparr>saved := s, logged := l\<rparr>\<lparr>heap := ?H\<rparr> = w\<lparr>heap := ?H\<rparr>\<lparr>saved := s, logged := l\<rparr>"
        by (cases w) simp
      have "fanout m cs (w\<lparr>saved := s, logged := l\<rparr>\<lparr>heap := ?H\<rparr>)
            = with_records s l (fanout m cs (w\<lparr>heap := ?H\<rparr>))"
        unfolding eq by (rule Cons.IH)
      then show ?thesis by (simp add: False Sent)
    next
      case Full
      then show ?thesis by (simp add: False)
    next
      case SendOnClosed
      then show ?thesis by (simp add: False)
    qed
  qed
qed

section \<open>C8: persistence and delivery\<close>

text \<open>
  C8. Let the broadcast event decode to \<open>env\<close> (or fail to), and the payload of \<open>env\<close> to
  \<open>msg\<close> (or fail to). If the envelope does not decode the Hub logs and does nothing else.
  Otherwise \<^verbatim>\<open>SaveMessage\<close> is called, once and with \<open>msg\<close>, exactly when the type tag is
  \<^verbatim>\<open>chat_message\<close> and the payload decodes; a failure of the call adds a line to the
  log; and in every case the outcome is that of the fan-out loop run on the state before
  the event, with nothing but the record of calls and the log replaced: what is delivered
  does not depend on what \<^verbatim>\<open>SaveMessage\<close> returns.
\<close>

theorem persistence_decoupled:
  assumes "unmarshal_Envelope J message = (env, env_ok)"
    and "unmarshal_Message J (Payload env) = (msg, msg_ok)"
  shows "Run_broadcast J message order w =
     (if \<not> env_ok then Done (w\<lparr>logged := logged w @ [''unmarshal envelope error:'']\<rparr>)
      else if Type env = ''chat_message'' \<and> msg_ok then
        with_records (saved w @ [msg])
          (logged w @ (case SaveMessage (db (hub w)) msg of
                         None \<Rightarrow> [] | Some e \<Rightarrow> [''SaveMessage error:'']))
          (fanout message order w)
      else with_records (saved w) (logged w) (fanout message order w))"
proof (cases env_ok)
  case False
  then show ?thesis by (simp add: Run_broadcast_def assms(1))
next
  case True
  show ?thesis
  proof (cases "Type env = ''chat_message'' \<and> msg_ok")
    case chat: True
    have "persist J env w = w\<lparr>saved := saved w @ [msg],
            logged := logged w @ (case SaveMessage (db (hub w)) msg of
                         None \<Rightarrow> [] | Some e \<Rightarrow> [''SaveMessage error:''])\<rparr>"
      using chat by (simp add: persist_def assms(2) Let_def split: option.splits)
    then show ?thesis
      by (simp add: True chat Run_broadcast_def assms(1) fanout_with_records)
  next
    case other: False
    have p: "persist J env w = w"
      using other by (auto simp: persist_def assms(2))
    have "with_records (saved w) (logged w) (fanout message order w) = fanout message order w"
      using fanout_with_records[where m = message and cs = order and s = "saved w"
          and l = "logged w" and w = w] by simp
    then show ?thesis
      by (simp add: True other Run_broadcast_def assms(1) p)
  qed
qed

lemma logged_three_clients: "logged three_clients = []"
  by (simp add: three_clients_def join_def arrive_def new_client_def Run_register_def Let_def
      init_world_def split: option.splits)

text \<open>
  The theorem at \<open>three_clients\<close> with a repository whose \<^verbatim>\<open>SaveMessage\<close> fails: the call
  is made and its failure logged, and alice and bob get the message.
\<close>

theorem persistence_decoupled_witness:
  "SaveMessage (db (hub three_clients_failing_db)) msg_hi = Some ''disk full'' \<and>
   (\<exists>w'. Run_broadcast json_sample hi_stamped [alice, bob] three_clients_failing_db = Done w' \<and>
      saved w' = [msg_hi] \<and> logged w' = [''SaveMessage error:''] \<and>
      buf (send (heap w' alice)) = sample_history ''lobby'' @ [hi_stamped] \<and>
      buf (send (heap w' bob)) = sample_history ''lobby'' @ [hi_stamped])"
proof -
  let ?w = three_clients_failing_db
  have h: "heap ?w = heap three_clients" "clients (hub ?w) = clients (hub three_clients)"
    "saved ?w = []" "logged ?w = []"
    by (simp_all add: three_clients_failing_db_def saved_three_clients logged_three_clients)
  have s: "SaveMessage (db (hub ?w)) msg_hi = Some ''disk full''"
    by (simp add: three_clients_failing_db_def failing_db_def)
  have c: "{c \<in> set [alice, bob]. clients (hub ?w) c \<noteq> None} = {alice, bob}"
    by (auto simp: h(2) three_clients_def clients_join)
  have "fanout hi_stamped [alice, bob] ?w =
          Done (deliver_to {c \<in> set [alice, bob]. clients (hub ?w) c \<noteq> None} hi_stamped ?w)"
    by (rule fanout_Done) (auto simp: h(1) heap_three_clients send_cap_def)
  then have f: "fanout hi_stamped [alice, bob] ?w = Done (deliver_to {alice, bob} hi_stamped ?w)"
    by (simp only: c)
  have "Run_broadcast json_sample hi_stamped [alice, bob] ?w =
          Done ((deliver_to {alice, bob} hi_stamped ?w)\<lparr>saved := [msg_hi], logged := [''SaveMessage error:'']\<rparr>)"
    using persistence_decoupled[OF unmarshal_hi_stamped, of msg_hi True "[alice, bob]" ?w]
    by (simp add: unmarshal_msg_hi f s h(3,4) del: fanout.simps)
  then show ?thesis
    using s by (simp add: deliver_to_def push_def h(1) heap_three_clients)
qed

section \<open>Client.readPump: C7, C9 and C6\<close>

lemma to_hub_append [simp]: "to_hub (xs @ ys) = to_hub xs @ to_hub ys"
  by (induction xs rule: to_hub.induct) simp_all

lemma stamp_eq: "msg\<lparr>Timestamp := now\<rparr> = \<lparr>Username = Username msg, Text = Text msg, Timestamp = now\<rparr>"
  by (cases msg) simp

text \<open>
  C7. Whenever the envelope of an inbound frame has the type tag \<^verbatim>\<open>chat_message\<close>, the
  pump sends the Hub one broadcast event for it and carries on with the next frame. The
  event is the encoding of the envelope with the type tag and room of the frame and, as
  payload, the user name and text that were decoded and the reading of the server clock as
  timestamp: the timestamp the client supplied occurs nowhere in it.
\<close>

theorem timestamp_overwritten:
  assumes "unmarshal_Envelope J message = (wrap, ok)"
    and "Type wrap = ''chat_message''"
    and "unmarshal_Message J (Payload wrap) = (msg, ok1)"
  shows "to_hub (readPump J c (Frame message now # rest)) =
           Broadcast (fst (marshal_chat J ''chat_message'' (Room wrap)
                            \<lparr>Username = Username msg, Text = Text msg, Timestamp = now\<rparr>))
           # to_hub (readPump J c rest)"
  by (simp add: on_frame_def assms stamp_eq)

lemma unmarshal_frame_hi:
  \<open>unmarshal_Envelope json_sample frame_hi =
     (\<lparr>Type = ''chat_message'', Room = ''lobby'',
       Payload = ''{"username":"alice","text":"hi","timestamp":0}''\<rparr>, True)\<close>
  by (simp add: json_sample_def lookup_or_def sample_envelopes_def frame_hi_def)

lemma unmarshal_msg_hi0:
  \<open>unmarshal_Message json_sample ''{"username":"alice","text":"hi","timestamp":0}'' =
     (\<lparr>Username = ''alice'', Text = ''hi'', Timestamp = 0\<rparr>, True)\<close>
  by (simp add: json_sample_def lookup_or_def sample_messages_def)

lemma show_now: "show_int64 1700000000 = ''1700000000''"
  by (simp add: show_int64_def decimal.simps)

lemma marshal_hi_stamped:
  "marshal_chat json_sample ''chat_message'' ''lobby''
     \<lparr>Username = ''alice'', Text = ''hi'', Timestamp = 1700000000\<rparr> = (hi_stamped, True)"
  by (simp add: json_sample_def sample_marshal_chat_def show_now hi_stamped_def)

text \<open>The theorem at \<open>frame_hi\<close>, whose timestamp is 0, read at time 1700000000.\<close>

theorem timestamp_overwritten_witness:
  "to_hub (readPump json_sample alice [Frame frame_hi 1700000000]) = [Broadcast hi_stamped]"
  using timestamp_overwritten[OF unmarshal_frame_hi, of "\<lparr>Username = ''alice'', Text = ''hi'', Timestamp = 0\<rparr>"
      True alice 1700000000 "[]"]
  by (simp add: unmarshal_msg_hi0 marshal_hi_stamped)

text \<open>
  C9. A frame whose type tag is neither \<^verbatim>\<open>chat_message\<close> nor \<^verbatim>\<open>typing_status\<close> has no
  effect but a log line when its envelope did not decode: nothing is sent to the Hub, the
  transport is not closed, and the pump handles the frames that follow as it would have
  without it.
\<close>

theorem unknown_tag_ignored:
  assumes "unmarshal_Envelope J message = (wrap, ok)"
    and "Type wrap \<noteq> ''chat_message''" and "Type wrap \<noteq> ''typing_status''"
  shows "readPump J c (Frame message now # rest) =
           (if ok then [] else [Log ''unmarshal wrap error:'']) @ readPump J c rest"
  using assms by (simp add: on_frame_def)

lemma unmarshal_frame_ping:
  \<open>unmarshal_Envelope json_sample frame_ping = (\<lparr>Type = ''ping'', Room = ''lobby'', Payload = ''{}''\<rparr>, True)\<close>
  by (simp add: json_sample_def lookup_or_def sample_envelopes_def frame_hi_def hi_stamped_def
      frame_str_def zero_stamped_def frame_ping_def)

lemma on_frame_hi: "on_frame json_sample 1700000000 frame_hi = [ToHub (Broadcast hi_stamped)]"
  by (simp add: on_frame_def unmarshal_frame_hi unmarshal_msg_hi0 marshal_hi_stamped)

text \<open>
  The theorem at a \<^verbatim>\<open>ping\<close> frame followed by a chat message: the chat message is
  forwarded.
\<close>

theorem unknown_tag_ignored_witness:
  "readPump json_sample alice [Frame frame_ping 1699999999, Frame frame_hi 1700000000] =
     [ToHub (Broadcast hi_stamped)]"
  using unknown_tag_ignored[OF unmarshal_frame_ping, of alice 1699999999 "[Frame frame_hi 1700000000]"]
  by (simp add: on_frame_hi)

text \<open>
  C6 does not hold of the code; this is what the code does. When the type tag is
  \<^verbatim>\<open>chat_message\<close> and the payload fails to decode, the pump logs the failure and then
  forwards the frame all the same: it sends the Hub the envelope of whatever the failed
  decoding left in the message, stamped with the server time.
\<close>

theorem undecodable_payload_forwarded:
  assumes "unmarshal_Envelope J message = (wrap, ok)"
    and "Type wrap = ''chat_message''"
    and "unmarshal_Message J (Payload wrap) = (msg, False)"
  shows "on_frame J now message =
           (if ok then [] else [Log ''unmarshal wrap error:'']) @
           [Log ''Unmarshal chat message error:'',
            ToHub (Broadcast (fst (marshal_chat J ''chat_message'' (Room wrap)
                                    \<lparr>Username = Username msg, Text = Text msg, Timestamp = now\<rparr>)))]"
  by (simp add: on_frame_def assms stamp_eq)

lemma unmarshal_frame_str:
  \<open>unmarshal_Envelope json_sample frame_str =
     (\<lparr>Type = ''chat_message'', Room = ''lobby'', Payload = ''"hello"''\<rparr>, True)\<close>
  by (simp add: json_sample_def lookup_or_def sample_envelopes_def frame_hi_def hi_stamped_def
      frame_str_def)

lemma unmarshal_msg_str:
  \<open>unmarshal_Message json_sample ''"hello"'' = (zero_Message, False)\<close>
  by (simp add: json_sample_def lookup_or_def sample_messages_def)

lemma marshal_zero_stamped:
  "marshal_chat json_sample ''chat_message'' ''lobby''
     \<lparr>Username = [], Text = [], Timestamp = 1700000000\<rparr> = (zero_stamped, True)"
  by (simp add: json_sample_def sample_marshal_chat_def show_now zero_stamped_def)

text \<open>
  The theorem at \<open>frame_str\<close>, whose payload is a JSON string: the zero message, stamped,
  goes to the Hub.
\<close>

theorem undecodable_payload_forwarded_witness:
  "snd (unmarshal_Message json_sample (Payload (fst (unmarshal_Envelope json_sample frame_str)))) = False \<and>
   readPump json_sample alice [Frame frame_str 1700000000] =
     [Log ''Unmarshal chat message error:'', ToHub (Broadcast zero_stamped)]"
  using undecodable_payload_forwarded[OF unmarshal_frame_str, of zero_Message 1700000000]
  by (simp add: unmarshal_frame_str unmarshal_msg_str marshal_zero_stamped zero_Message_def)

section \<open>C10: the room of a broadcast is the room the frame names\<close>

text \<open>
  C10. Let a connection \<open>c\<close>, of whatever room, read a frame whose envelope has one of the
  two known type tags and names room \<open>R\<close>. The pump sends the Hub one broadcast event
  \<open>raw\<close>, the encoding of an envelope with the type tag and the room of the frame. Where
  that encoding decodes to an envelope with the same room (the round trip of
  \<^verbatim>\<open>encoding/json\<close>), the Hub, in a reachable state in which no queue of \<open>R\<close> is full,
  enqueues \<open>raw\<close> to exactly the connections registered in \<open>R\<close>. The room of \<open>c\<close> plays no
  part: \<open>c\<close> gets the message only if it is itself registered in \<open>R\<close>.
\<close>

theorem fanout_keyed_by_envelope_room:
  assumes "reachable J d w"
    and "unmarshal_Envelope J message = (wrap, ok)"
    and "Type wrap = ''chat_message'' \<or> Type wrap = ''typing_status''"
    and "unmarshal_Message J (Payload wrap) = (msg, ok1)"
    and "unmarshal_TypingStatus J (Payload wrap) = (ts, ok2)"
    and "raw = (if Type wrap = ''chat_message''
                then fst (marshal_chat J (Type wrap) (Room wrap) (msg\<lparr>Timestamp := now\<rparr>))
                else fst (marshal_typing J (Type wrap) (Room wrap) ts))"
    and "unmarshal_Envelope J raw = (env, True)" and "Room env = Room wrap"
    and "range_order w (Room wrap) order"
    and "\<And>x. x \<in> members w (Room wrap) \<Longrightarrow> length (buf (send (heap w x))) < send_cap"
  shows "to_hub (readPump J c [Frame message now]) = [Broadcast raw] \<and>
         (\<exists>w'. Run J [(Broadcast raw, order)] w = Done w' \<and>
            (\<forall>x. buf (send (heap w' x)) =
                  (if x \<in> members w (Room wrap) then buf (send (heap w x)) @ [raw]
                   else buf (send (heap w x)))))"
proof -
  have fwd: "to_hub (readPump J c [Frame message now]) = [Broadcast raw]"
    using assms(3) by (auto simp: on_frame_def assms(2,4,5,6))
  have inv: "hub_inv w" using assms(1) by (rule reachable_hub_inv)
  have o: "range_order w (Room env) order" using assms(9) by (simp add: assms(8))
  have f: "\<And>x. x \<in> members w (Room env) \<Longrightarrow> length (buf (send (heap w x))) < send_cap"
    using assms(10) by (simp add: assms(8))
  let ?w' = "deliver_to (members w (Room env)) raw (persist J env w)"
  have "Run_broadcast J raw order w = Done ?w'"
    using inv assms(7) o f by (rule Run_broadcast_deliver)
  then have "Run J [(Broadcast raw, order)] w = Done ?w'" by simp
  moreover have "\<forall>x. buf (send (heap ?w' x)) =
                  (if x \<in> members w (Room wrap) then buf (send (heap w x)) @ [raw]
                   else buf (send (heap w x)))"
    by (simp add: deliver_to_def persist_frame push_def assms(8))
  ultimately show ?thesis using fwd by blast
qed

text \<open>
  The theorem at carol, who is in the room \<open>other\<close> and sends a frame that names the
  lobby: alice and bob get it, carol does not.
\<close>

theorem fanout_keyed_by_envelope_room_witness:
  "room (heap three_clients carol) = ''other'' \<and>
   to_hub (readPump json_sample carol [Frame frame_hi 1700000000]) = [Broadcast hi_stamped] \<and>
   (\<exists>w'. Run json_sample [(Broadcast hi_stamped, [alice, bob])] three_clients = Done w' \<and>
      buf (send (heap w' alice)) = sample_history ''lobby'' @ [hi_stamped] \<and>
      buf (send (heap w' bob)) = sample_history ''lobby'' @ [hi_stamped] \<and>
      buf (send (heap w' carol)) = sample_history ''other'')"
proof -
  let ?m = "\<lparr>Username = ''alice'', Text = ''hi'', Timestamp = 0\<rparr>"
  obtain ts ok2 where t:
    \<open>unmarshal_TypingStatus json_sample ''{"username":"alice","text":"hi","timestamp":0}'' = (ts, ok2)\<close>
    by (cases \<open>unmarshal_TypingStatus json_sample ''{"username":"alice","text":"hi","timestamp":0}''\<close>)
  have o: "range_order three_clients ''lobby'' [alice, bob]"
    by (auto simp: range_order_def room_keys_three_clients)
  have f: "\<And>x. x \<in> members three_clients ''lobby'' \<Longrightarrow>
             length (buf (send (heap three_clients x))) < send_cap"
    by (auto simp: members_three_clients heap_three_clients send_cap_def)
  have "to_hub (readPump json_sample carol [Frame frame_hi 1700000000]) = [Broadcast hi_stamped] \<and>
         (\<exists>w'. Run json_sample [(Broadcast hi_stamped, [alice, bob])] three_clients = Done w' \<and>
            (\<forall>x. buf (send (heap w' x)) =
                  (if x \<in> members three_clients ''lobby'' then buf (send (heap three_clients x)) @ [hi_stamped]
                   else buf (send (heap three_clients x)))))"
    using fanout_keyed_by_envelope_room[OF reachable_three_clients unmarshal_frame_hi, of ?m True ts ok2
        hi_stamped 1700000000 _ "[alice, bob]" carol]
    by (simp add: unmarshal_msg_hi0 t marshal_hi_stamped unmarshal_hi_stamped o f del: Run.simps readPump.simps)
  then obtain w' where w': "Run json_sample [(Broadcast hi_stamped, [alice, bob])] three_clients = Done w'"
     "\<forall>x. buf (send (heap w' x)) =
                  (if x \<in> members three_clients ''lobby'' then buf (send (heap three_clients x)) @ [hi_stamped]
                   else buf (send (heap three_clients x)))"
     and fw: "to_hub (readPump json_sample carol [Frame frame_hi 1700000000]) = [Broadcast hi_stamped]"
    by blast
  from w'(2) have "buf (send (heap w' alice)) = sample_history ''lobby'' @ [hi_stamped]"
    "buf (send (heap w' bob)) = sample_history ''lobby'' @ [hi_stamped]"
    "buf (send (heap w' carol)) = sample_history ''other''"
    by (simp_all add: members_three_clients heap_three_clients)
  with w'(1) fw show ?thesis by (simp add: heap_three_clients del: Run.simps readPump.simps)
qed

section \<open>C3: the history comes first\<close>

lemma replay_Joined:
  "replay J c ms w = Joined w' \<Longrightarrow>
   buf (send (heap w' c)) =
     buf (send (heap w c)) @ map fst (filter snd (map (marshal_chat J ''chat_message'' (room (heap w c))) ms)) \<and>
   written w' = written w \<and> writer_exited w' = writer_exited w"
proof (induction ms arbitrary: w)
  case Nil
  then show ?case by simp
next
  case (Cons msg ms)
  obtain j ok where m: "marshal_chat J ''chat_message'' (room (heap w c)) msg = (j, ok)"
    by (cases "marshal_chat J ''chat_message'' (room (heap w c)) msg")
  show ?case
  proof (cases ok)
    case False
    let ?w1 = "w\<lparr>logged := logged w @ [''LastMessage Marshal error:'']\<rparr>"
    from Cons.prems m False have "replay J c ms ?w1 = Joined w'" by simp
    from Cons.IH[OF this] show ?thesis by (simp add: m False)
  next
    case True
    show ?thesis
    proof (cases "length (buf (send (heap w c))) < send_cap")
      case fits: True
      from Cons.prems m True fits have "replay J c ms (enqueue c j w) = Joined w'" by simp
      from Cons.IH[OF this] show ?thesis by (simp add: m True enqueue_def)
    next
      case False
      with Cons.prems m True show ?thesis by simp
    qed
  qed
qed

lemma serveWs_Joined:
  assumes "serveWs J rm uname ok c w = Joined w1"
  shows "buf (send (heap w1 c)) = history_envelopes J (db (hub w)) rm"
    and "hub w1 = hub w" and "written w1 c = []" and "\<not> writer_exited w1 c"
proof -
  have ne: "\<not> (rm = [] \<or> uname = [])" and ok: ok
    using assms by (auto simp: serveWs_def split: if_splits)
  let ?w0 = "w\<lparr>heap := (heap w)(c := \<lparr>send = make_chan, room = rm, username = uname\<rparr>),
                written := (written w)(c := []),
                writer_exited := (writer_exited w)(c := False)\<rparr>"
  obtain ms err where g: "GetLastMessages (db (hub w)) rm 10 = (ms, err)"
    by (cases "GetLastMessages (db (hub w)) rm 10")
  have "buf (send (heap w1 c)) = history_envelopes J (db (hub w)) rm \<and> written w1 c = [] \<and>
        \<not> writer_exited w1 c"
  proof (cases err)
    case None
    with assms ne ok g have "replay J c ms ?w0 = Joined w1" by (simp add: serveWs_def Let_def)
    from replay_Joined[OF this] show ?thesis
      by (simp add: history_envelopes_def g None make_chan_def)
  next
    case (Some e)
    with assms ne ok g show ?thesis
      by (auto simp: serveWs_def Let_def history_envelopes_def make_chan_def)
  qed
  then show "buf (send (heap w1 c)) = history_envelopes J (db (hub w)) rm"
    "written w1 c = []" "\<not> writer_exited w1 c" by simp_all
  from assms have "serve_world (serveWs J rm uname ok c w) = Some w1" by simp
  from serveWs_frame[OF this] show "hub w1 = hub w" by simp
qed

lemma fanout_skips:
  "clients (hub w) c = None \<Longrightarrow> state_of (fanout m cs w) = Some w' \<Longrightarrow> heap w' c = heap w c"
proof (induction cs arbitrary: w)
  case Nil
  then show ?case by simp
next
  case (Cons a cs)
  show ?case
  proof (cases "clients (hub w) a = None")
    case True
    with Cons show ?thesis by simp
  next
    case False
    with Cons.prems(1) have ne: "a \<noteq> c" by auto
    show ?thesis
    proof (cases "try_send (send (heap w a)) m")
      case (Sent ch)
      let ?w1 = "w\<lparr>heap := (heap w)(a := (heap w a)\<lparr>send := ch\<rparr>)\<rparr>"
      from Cons.prems(2) False Sent have "state_of (fanout m cs ?w1) = Some w'" by simp
      moreover have "clients (hub ?w1) c = None" using Cons.prems(1) by simp
      ultimately have "heap w' c = heap ?w1 c" by (rule Cons.IH[rotated])
      then show ?thesis using ne by simp
    next
      case Full
      with Cons.prems(2) False show ?thesis by simp
    next
      case SendOnClosed
      with Cons.prems(2) False show ?thesis by simp
    qed
  qed
qed

lemma Run_broadcast_skips:
  assumes "clients (hub w) c = None" "state_of (Run_broadcast J m order w) = Some w'"
  shows "heap w' c = heap w c"
proof -
  obtain env ok where e: "unmarshal_Envelope J m = (env, ok)" by (cases "unmarshal_Envelope J m")
  show ?thesis
  proof (cases ok)
    case True
    with assms(2) e have "state_of (fanout m order (persist J env w)) = Some w'"
      by (simp add: Run_broadcast_def)
    moreover have "clients (hub (persist J env w)) c = None" using assms(1) by (simp add: persist_frame)
    ultimately have "heap w' c = heap (persist J env w) c" by (rule fanout_skips[rotated])
    then show ?thesis by (simp add: persist_frame)
  next
    case False
    with assms(2) e show ?thesis by (auto simp: Run_broadcast_def)
  qed
qed

lemma fanout_appends:
  "state_of (fanout m cs w) = Some w' \<Longrightarrow>
   \<exists>extra. buf (send (heap w' c)) = buf (send (heap w c)) @ extra"
proof (induction cs arbitrary: w)
  case Nil
  then show ?case by simp
next
  case (Cons a cs)
  show ?case
  proof (cases "clients (hub w) a = None")
    case True
    with Cons show ?thesis by simp
  next
    case False
    show ?thesis
    proof (cases "try_send (send (heap w a)) m")
      case (Sent ch)
      then have ch: "buf ch = buf (send (heap w a)) @ [m]"
        by (auto simp: try_send_def split: if_splits)
      let ?w1 = "w\<lparr>heap := (heap w)(a := (heap w a)\<lparr>send := ch\<rparr>)\<rparr>"
      from Cons.prems False Sent have "state_of (fanout m cs ?w1) = Some w'" by simp
      from Cons.IH[OF this] obtain extra where
        "buf (send (heap w' c)) = buf (send (heap ?w1 c)) @ extra" by blast
      then show ?thesis using ch by (cases "c = a") simp_all
    next
      case Full
      with Cons.prems False show ?thesis by simp
    next
      case SendOnClosed
      with Cons.prems False show ?thesis by simp
    qed
  qed
qed

lemma Run_broadcast_appends:
  assumes "state_of (Run_broadcast J m order w) = Some w'"
  shows "\<exists>extra. buf (send (heap w' c)) = buf (send (heap w c)) @ extra"
proof -
  obtain env ok where e: "unmarshal_Envelope J m = (env, ok)" by (cases "unmarshal_Envelope J m")
  show ?thesis
  proof (cases ok)
    case True
    with assms e have "state_of (fanout m order (persist J env w)) = Some w'"
      by (simp add: Run_broadcast_def)
    from fanout_appends[OF this, of c] show ?thesis by (simp add: persist_frame)
  next
    case False
    with assms e show ?thesis by (auto simp: Run_broadcast_def)
  qed
qed

subsection \<open>What the client is sent\<close>

lemma texts_append [simp]: "texts (xs @ ys) = texts xs @ texts ys"
  by (induction xs rule: texts.induct) simp_all

lemma Run_register_frame [simp]:
  "written (Run_register x w) = written w" "writer_exited (Run_register x w) = writer_exited w"
  by (simp_all add: Run_register_def Let_def split: option.splits)

lemma Run_unregister_written:
  "Run_unregister x w = Done w' \<Longrightarrow> written w' = written w \<and> writer_exited w' = writer_exited w"
  by (auto simp: Run_unregister_def close_chan_def split: if_splits)

lemma history_first_same:
  assumes "history_first H c w"
    and "buf (send (heap w' c)) = buf (send (heap w c))"
    and "written w' c = written w c" and "writer_exited w' c = writer_exited w c"
  shows "history_first H c w'"
  using assms unfolding history_first_def by simp

lemma history_first_more:
  assumes "history_first H c w"
    and "buf (send (heap w' c)) = buf (send (heap w c)) @ extra"
    and "written w' c = written w c" and "writer_exited w' c = writer_exited w c"
  shows "history_first H c w'"
proof -
  from assms(1) obtain lost more where
    h: "H @ more = texts (written w c) @ lost @ buf (send (heap w c))" "lost = [] \<or> writer_exited w c"
    unfolding history_first_def by blast
  have "H @ (more @ extra) = texts (written w' c) @ lost @ buf (send (heap w' c))"
    using h(1) by (simp add: assms(2,3) flip: append_assoc)
  then show ?thesis unfolding history_first_def using h(2) assms(4) by blast
qed

lemma history_first_writePump:
  assumes "history_first H c w"
  shows "history_first H c (writePump_step x write_ok w)"
proof (cases "x = c")
  case False
  then show ?thesis
    by (rule_tac history_first_same[OF assms])
       (simp_all add: writePump_step_def recv_def Let_def
          split: option.splits recv_result.splits list.splits)
next
  case True
  from assms obtain lost more where
    h: "H @ more = texts (written w c) @ lost @ buf (send (heap w c))" "lost = [] \<or> writer_exited w c"
    unfolding history_first_def by blast
  show ?thesis
  proof (cases "writer_exited w c")
    case True
    then have "writePump_step c write_ok w = w" by (simp add: writePump_step_def)
    then show ?thesis using assms \<open>x = c\<close> by simp
  next
    case running: False
    with h(2) have lost: "lost = []" by simp
    show ?thesis
    proof (cases "buf (send (heap w c))")
      case Nil
      show ?thesis
      proof (cases "closed (send (heap w c))")
        case True
        then have "writePump_step c write_ok w =
            w\<lparr>written := (written w)(c := written w c @ [CloseMessage]),
              writer_exited := (writer_exited w)(c := True)\<rparr>"
          by (simp add: writePump_step_def running recv_def Nil)
        then show ?thesis using h(1) \<open>x = c\<close> unfolding history_first_def by auto
      next
        case False
        then have "writePump_step c write_ok w = w"
          by (simp add: writePump_step_def running recv_def Nil)
        then show ?thesis using assms \<open>x = c\<close> by simp
      qed
    next
      case (Cons m rest)
      show ?thesis
      proof (cases write_ok)
        case True
        have "H @ more = texts (written (writePump_step c write_ok w) c) @ [] @
                buf (send (heap (writePump_step c write_ok w) c))"
          using h(1) by (simp add: writePump_step_def running recv_def Cons True Let_def lost)
        then show ?thesis using \<open>x = c\<close> unfolding history_first_def by blast
      next
        case False
        have "H @ more = texts (written (writePump_step c write_ok w) c) @ [m] @
                buf (send (heap (writePump_step c write_ok w) c))"
          and "writer_exited (writePump_step c write_ok w) c"
          using h(1) by (simp_all add: writePump_step_def running recv_def Cons False Let_def lost)
        then show ?thesis using \<open>x = c\<close> unfolding history_first_def by blast
      qed
    qed
  qed
qed

lemma history_first_step:
  assumes "history_first H c w" "state_of (step J a w) = Some w'"
  shows "history_first H c w'"
proof (cases a)
  case (WritePump x write_ok)
  with assms(2) have "w' = writePump_step x write_ok w" by simp
  then show ?thesis using assms(1) by (simp add: history_first_writePump)
next
  case (HubEvent ev order)
  show ?thesis
  proof (cases ev)
    case (Register x)
    with HubEvent assms(2) have "w' = Run_register x w" by simp
    then show ?thesis by (rule_tac history_first_same[OF assms(1)]) simp_all
  next
    case (Unregister x)
    with HubEvent assms(2) have r: "Run_unregister x w = Done w'"
      by (cases "Run_unregister x w") (auto simp: Run_unregister_def split: if_splits option.splits)
    show ?thesis
      using Run_unregister_Done(5)[OF r, of c] Run_unregister_written[OF r]
      by (rule_tac history_first_same[OF assms(1)]) simp_all
  next
    case (Broadcast m)
    with HubEvent assms(2) have r: "state_of (Run_broadcast J m order w) = Some w'" by simp
    from Run_broadcast_appends[OF r, of c] obtain extra where
      e: "buf (send (heap w' c)) = buf (send (heap w c)) @ extra" by blast
    show ?thesis
      using Run_broadcast_frame[OF r]
      by (rule_tac history_first_more[OF assms(1) e]) simp_all
  qed
qed

lemma history_first_steps:
  "history_first H c w \<Longrightarrow> state_of (steps J acts w) = Some w' \<Longrightarrow> history_first H c w'"
proof (induction acts arbitrary: w)
  case Nil
  then show ?case by simp
next
  case (Cons a acts)
  show ?case
  proof (cases "step J a w")
    case (Done w1)
    then have "state_of (step J a w) = Some w1" by simp
    with Cons.prems(1) have "history_first H c w1" by (rule history_first_step)
    moreover from Cons.prems(2) Done have "state_of (steps J acts w1) = Some w'" by simp
    ultimately show ?thesis by (rule Cons.IH)
  next
    case (Blocked w1 x)
    with Cons.prems(2) have "state_of (step J a w) = Some w'" by simp
    with Cons.prems(1) show ?thesis by (rule history_first_step)
  next
    case (Panic s)
    with Cons.prems(2) show ?thesis by simp
  qed
qed

lemma history_first_prefix:
  assumes "history_first H c w"
  shows "prefix (texts (written w c)) H \<or> prefix H (texts (written w c))"
proof -
  from assms obtain lost more where
    "H @ more = texts (written w c) @ (lost @ buf (send (heap w c)))"
    unfolding history_first_def by auto
  then obtain us where "H = texts (written w c) @ us \<or> H @ us = texts (written w c)"
    by (auto simp: append_eq_append_conv2)
  then show ?thesis
  proof
    assume "H = texts (written w c) @ us"
    then have "prefix (texts (written w c)) H" by (rule prefixI)
    then show ?thesis ..
  next
    assume "H @ us = texts (written w c)"
    then have "prefix H (texts (written w c))" by (intro prefixI) (rule sym)
    then show ?thesis ..
  qed
qed

text \<open>
  C3. Let \<^verbatim>\<open>serveWs\<close> reach the point where it sends its new client \<open>c\<close> on
  \<^verbatim>\<open>hub.register\<close>, in state \<open>w1\<close>. In that state the queue of \<open>c\<close> holds the whole
  replayed history, in the order of \<^verbatim>\<open>GetLastMessages\<close>, nothing has been written to
  the client, and the Hub is as it was before the call: \<open>c\<close> is not registered, and a
  broadcast handled in that state leaves the client untouched. From then on, whatever the
  Hub and the \<^verbatim>\<open>writePump\<close>s do (the register event, broadcasts, writes that succeed or
  fail), what has been written to the client, followed by what is lost or still queued,
  is the history followed by later messages; so what the client has been sent is an
  initial part of the history or begins with all of it.
\<close>

theorem history_before_register:
  assumes "serveWs J rm uname ok c w = Joined w1" and "clients (hub w) c = None"
  shows "buf (send (heap w1 c)) = history_envelopes J (db (hub w)) rm \<and> written w1 c = [] \<and>
         hub w1 = hub w \<and>
         (\<forall>m order w'. state_of (Run_broadcast J m order w1) = Some w' \<longrightarrow> heap w' c = heap w1 c) \<and>
         (\<forall>acts w2. state_of (steps J acts w1) = Some w2 \<longrightarrow>
            history_first (history_envelopes J (db (hub w)) rm) c w2 \<and>
            (prefix (texts (written w2 c)) (history_envelopes J (db (hub w)) rm) \<or>
             prefix (history_envelopes J (db (hub w)) rm) (texts (written w2 c))))"
proof -
  let ?H = "history_envelopes J (db (hub w)) rm"
  note j = serveWs_Joined[OF assms(1)]
  have c: "clients (hub w1) c = None" using assms(2) by (simp add: j(2))
  have skip: "\<forall>m order w'. state_of (Run_broadcast J m order w1) = Some w' \<longrightarrow> heap w' c = heap w1 c"
    using Run_broadcast_skips[OF c] by blast
  have start: "history_first ?H c w1"
    unfolding history_first_def using j(1,3) by (rule_tac x = "[]" in exI) simp
  have "\<forall>acts w2. state_of (steps J acts w1) = Some w2 \<longrightarrow>
            history_first ?H c w2 \<and>
            (prefix (texts (written w2 c)) ?H \<or> prefix ?H (texts (written w2 c)))"
    using history_first_steps[OF start] history_first_prefix by blast
  with j(1,2,3) skip show ?thesis by blast
qed


subsection \<open>Alice joins\<close>

lemma history_envelopes_sample: "history_envelopes json_sample sample_db rm = sample_history rm"
  by (simp add: history_envelopes_def sample_db_def MockDB_def json_sample_def
      sample_marshal_chat_def hist1 hist2 sample_history_def)

lemma range_order_alice: "range_order (Run_register alice alice_joined) ''lobby'' [alice]"
  by (simp add: range_order_def room_keys_register alice_joined_def heap_arrive room_keys_init)

lemma members_alice: "members (Run_register alice alice_joined) ''lobby'' = {alice}"
  by (auto simp: members_def Run_register_clients alice_joined_def heap_arrive init_world_def NewHub_def)

lemma broadcast_alice:
  "\<exists>w'. Run_broadcast json_sample hi_stamped [alice] (Run_register alice alice_joined) = Done w' \<and>
        heap w' alice = push hi_stamped (heap alice_joined alice) \<and>
        written w' = written alice_joined \<and> writer_exited w' = writer_exited alice_joined"
proof -
  let ?w = "Run_register alice alice_joined"
  obtain env where e: "unmarshal_Envelope json_sample hi_stamped = (env, True)" "Room env = ''lobby''"
    using unmarshal_hi_stamped by simp
  have "Run_broadcast json_sample hi_stamped [alice] ?w =
        Done (deliver_to (members ?w (Room env)) hi_stamped (persist json_sample env ?w))"
  proof (rule Run_broadcast_deliver[OF reachable_hub_inv[OF reachable_alice_registered] e(1)])
    show "range_order ?w (Room env) [alice]" by (simp add: e(2) range_order_alice)
    fix x assume "x \<in> members ?w (Room env)"
    then have "x = alice" by (simp add: e(2) members_alice)
    then show "length (buf (send (heap ?w x))) < send_cap"
      by (simp add: alice_joined_def heap_arrive send_cap_def)
  qed
  then show ?thesis
    by (simp add: e(2) members_alice deliver_to_def persist_frame)
qed

text \<open>
  The theorem at alice, the first client: \<^verbatim>\<open>serveWs\<close> leaves the two messages of the
  history in her queue; after her register event, one broadcast and three turns of her
  \<^verbatim>\<open>writePump\<close> she has been sent the history and then the broadcast.
\<close>

theorem history_before_register_witness:
  "serveWs json_sample ''lobby'' ''alice'' True alice (init_world sample_db) = Joined alice_joined \<and>
   clients (hub (init_world sample_db)) alice = None \<and>
   buf (send (heap alice_joined alice)) = sample_history ''lobby'' \<and>
   clients (hub alice_joined) alice = None \<and>
   (\<exists>w2. steps json_sample
            [HubEvent (Register alice) [], HubEvent (Broadcast hi_stamped) [alice],
             WritePump alice True, WritePump alice True, WritePump alice True] alice_joined = Done w2 \<and>
          texts (written w2 alice) = sample_history ''lobby'' @ [hi_stamped])"
proof -
  have n: "clients (hub (init_world sample_db)) alice = None"
    by (simp add: init_world_def NewHub_def)
  from history_before_register[OF serveWs_alice n]
  have b: "buf (send (heap alice_joined alice)) = sample_history ''lobby''"
    and h: "hub alice_joined = hub (init_world sample_db)"
    by (simp_all add: history_envelopes_sample init_world_def NewHub_def)
  from broadcast_alice obtain w' where
    w': "Run_broadcast json_sample hi_stamped [alice] (Run_register alice alice_joined) = Done w'"
    "heap w' alice = push hi_stamped (heap alice_joined alice)"
    "written w' = written alice_joined" "writer_exited w' = writer_exited alice_joined"
    by blast
  have wr: "written alice_joined alice = []" "\<not> writer_exited alice_joined alice"
    by (simp_all add: alice_joined_def arrive_def new_client_def)
  let ?w3 = "writePump_step alice True (writePump_step alice True (writePump_step alice True w'))"
  have run: "steps json_sample
            [HubEvent (Register alice) [], HubEvent (Broadcast hi_stamped) [alice],
             WritePump alice True, WritePump alice True, WritePump alice True] alice_joined = Done ?w3"
    by (simp add: w'(1))
  have "texts (written ?w3 alice) = sample_history ''lobby'' @ [hi_stamped]"
    using b by (simp add: writePump_step_def recv_def w'(2,3,4) wr push_def sample_history_def Let_def)
  with run serveWs_alice n b h show ?thesis by simp
qed

end
